theory Spec2Isabelle
  imports Complex_Main "HOL-Library.List_Lexorder" "HOL-Library.Product_Lexorder"
begin

section \<open>Python values\<close>

text \<open>
  A Python \<open>str\<close> is a sequence of Unicode code points, and \<open>len\<close> and slicing count code
  points, so a string is modelled as a list of code points. ASCII literals of the source
  are written through \<open>ascii\<close>.
\<close>

type_synonym pystr = "nat list"

definition ascii :: "string \<Rightarrow> pystr" where
  "ascii s = map of_char s"

text \<open>The characters for which \<open>str.isspace\<close> holds; \<open>str.strip()\<close> removes them at both ends.\<close>

definition isspace :: "nat \<Rightarrow> bool" where
  "isspace c \<longleftrightarrow>
     (9 \<le> c \<and> c \<le> 13) \<or> (28 \<le> c \<and> c \<le> 32) \<or> c = 133 \<or> c = 160 \<or> c = 5760
     \<or> (8192 \<le> c \<and> c \<le> 8202) \<or> c = 8232 \<or> c = 8233 \<or> c = 8239 \<or> c = 8287 \<or> c = 12288"

definition strip :: "pystr \<Rightarrow> pystr" where
  "strip s = rev (dropWhile isspace (rev (dropWhile isspace s)))"

text \<open>
  \<open>s[i:j]\<close> for integer bounds: a negative bound counts from the end, and both bounds are
  clamped to the string.
\<close>

definition slice_bound :: "nat \<Rightarrow> int \<Rightarrow> nat" where
  "slice_bound n k = (if k < 0 then nat (max 0 (k + int n)) else min (nat k) n)"

definition pyslice :: "'a list \<Rightarrow> int \<Rightarrow> int \<Rightarrow> 'a list" where
  "pyslice s i j =
     (let lo = slice_bound (length s) i; hi = slice_bound (length s) j
      in take (hi - lo) (drop lo s))"

text \<open>\<open>str(n)\<close> for an integer, as the f-strings of the source format it.\<close>

fun digits :: "nat \<Rightarrow> pystr" where
  "digits n = (if n < 10 then [48 + n] else digits (n div 10) @ [48 + n mod 10])"

declare digits.simps [simp del]

definition str_int :: "int \<Rightarrow> pystr" where
  "str_int i = (if i < 0 then 45 # digits (nat (- i)) else digits (nat i))"

text \<open>\<open>s.startswith(p)\<close>, \<open>s.endswith(p)\<close>, \<open>s.find(sub)\<close> and \<open>s.rfind(sub)\<close> (\<open>-1\<close> when absent).\<close>

definition startswith :: "pystr \<Rightarrow> pystr \<Rightarrow> bool" where
  "startswith s p \<longleftrightarrow> take (length p) s = p"

definition endswith :: "pystr \<Rightarrow> pystr \<Rightarrow> bool" where
  "endswith s p \<longleftrightarrow> length p \<le> length s \<and> drop (length s - length p) s = p"

fun find_at :: "pystr \<Rightarrow> pystr \<Rightarrow> nat \<Rightarrow> int" where
  "find_at sub [] i = (if sub = [] then int i else - 1)"
| "find_at sub (c # cs) i = (if startswith (c # cs) sub then int i else find_at sub cs (Suc i))"

definition pyfind :: "pystr \<Rightarrow> pystr \<Rightarrow> int" where
  "pyfind s sub = find_at sub s 0"

fun rfind_at :: "pystr \<Rightarrow> pystr \<Rightarrow> nat \<Rightarrow> int \<Rightarrow> int" where
  "rfind_at sub [] i best = (if sub = [] then int i else best)"
| "rfind_at sub (c # cs) i best =
     rfind_at sub cs (Suc i) (if startswith (c # cs) sub then int i else best)"

definition pyrfind :: "pystr \<Rightarrow> pystr \<Rightarrow> int" where
  "pyrfind s sub = rfind_at sub s 0 (- 1)"

text \<open>\<open>sep.join(xs)\<close>.\<close>

fun join :: "pystr \<Rightarrow> pystr list \<Rightarrow> pystr" where
  "join sep [] = []"
| "join sep [x] = x"
| "join sep (x # y # ys) = x @ sep @ join sep (y # ys)"

text \<open>The exceptions the modelled functions raise.\<close>

datatype pyerr = ValueError | RuntimeError | AttributeError | TypeError

text \<open>A decoded JSON document, as \<open>json.loads\<close> returns it (a \<open>dict\<close> keeps the order of its keys).\<close>

datatype json =
    JNull
  | JBool bool
  | JInt int
  | JFloat real
  | JStr pystr
  | JArr "json list"
  | JObj "(pystr \<times> json) list"

section \<open>Python objects decoded from JSON\<close>

text \<open>Truth value of an object, as \<open>bool(x)\<close>, \<open>not x\<close> and \<open>x or y\<close> take it.\<close>

fun truthy :: "json \<Rightarrow> bool" where
  "truthy JNull = False"
| "truthy (JBool b) = b"
| "truthy (JInt i) = (i \<noteq> 0)"
| "truthy (JFloat r) = (r \<noteq> 0)"
| "truthy (JStr s) = (s \<noteq> [])"
| "truthy (JArr xs) = (xs \<noteq> [])"
| "truthy (JObj d) = (d \<noteq> [])"

definition py_or :: "json \<Rightarrow> json \<Rightarrow> json" where
  "py_or x y = (if truthy x then x else y)"

text \<open>
  A \<open>dict\<close> is the list of its items in insertion order, each key occurring once.
  \<open>d.get(k)\<close>, \<open>d.get(k, default)\<close>, \<open>d.setdefault(k, v)\<close> and \<open>d[k] = v\<close>.
\<close>

definition dict_get :: "(pystr \<times> json) list \<Rightarrow> pystr \<Rightarrow> json" where
  "dict_get d k = (case map_of d k of Some v \<Rightarrow> v | None \<Rightarrow> JNull)"

definition dict_get_default :: "(pystr \<times> json) list \<Rightarrow> pystr \<Rightarrow> json \<Rightarrow> json" where
  "dict_get_default d k dflt = (case map_of d k of Some v \<Rightarrow> v | None \<Rightarrow> dflt)"

definition setdefault :: "(pystr \<times> json) list \<Rightarrow> pystr \<Rightarrow> json \<Rightarrow> (pystr \<times> json) list" where
  "setdefault d k v = (if map_of d k = None then d @ [(k, v)] else d)"

definition dict_set :: "(pystr \<times> json) list \<Rightarrow> pystr \<Rightarrow> json \<Rightarrow> (pystr \<times> json) list" where
  "dict_set d k v =
     (if map_of d k = None then d @ [(k, v)]
      else map (\<lambda>(k', v'). if k' = k then (k', v) else (k', v')) d)"

text \<open>
  \<open>x.get(k)\<close> and \<open>x.get(k, default)\<close> on an object of unknown type: only a \<open>dict\<close> has the
  method, every other object raises \<open>AttributeError\<close>.
\<close>

definition attr_get :: "json \<Rightarrow> pystr \<Rightarrow> pyerr + json" where
  "attr_get x k = (case x of JObj d \<Rightarrow> Inr (dict_get d k) | _ \<Rightarrow> Inl AttributeError)"

definition attr_get_default :: "json \<Rightarrow> pystr \<Rightarrow> json \<Rightarrow> pyerr + json" where
  "attr_get_default x k dflt =
     (case x of JObj d \<Rightarrow> Inr (dict_get_default d k dflt) | _ \<Rightarrow> Inl AttributeError)"

text \<open>\<open>len(x or "")\<close>: numbers and \<open>True\<close> have no length.\<close>

definition len_or_empty :: "json \<Rightarrow> pyerr + nat" where
  "len_or_empty x =
     (case py_or x (JStr []) of
        JStr s \<Rightarrow> Inr (length s)
      | JArr xs \<Rightarrow> Inr (length xs)
      | JObj d \<Rightarrow> Inr (length d)
      | _ \<Rightarrow> Inl TypeError)"

section \<open>The world outside the program\<close>

text \<open>
  The outcome of the HTTP request of \<open>callQwen\<close>: \<open>requests.post\<close> raises, or there is a
  response with a status code, whose body is not JSON, or is JSON without
  \<open>choices[0].message.content\<close>, or has that content (a string, or \<open>null\<close>).
\<close>

datatype http_body = NotJson | BadFormat | Content "pystr option"

datatype http_outcome = RequestException | Response int http_body

text \<open>
  A Chroma \<open>where\<close> filter, as \<open>_buildWhere\<close> and the neighbour lookup build it: one
  condition, or the conjunction \<open>$and\<close> of several.
\<close>

datatype cond =
    ChatbotEq pystr
  | UserGroupEq pystr
  | DocumentEq pystr
  | OrderGte int
  | OrderLte int

datatype where_filter = Single cond | AllOf "cond list"

text \<open>The calls that leave the process, in the order they are made.\<close>

datatype event =
    EvLLM nat pystr
  | EvGetCollection pystr
  | EvEmbed pystr
  | EvQuery where_filter int
  | EvGet where_filter

text \<open>What a Chroma record carries: its id, its document text and its metadata.\<close>

record StoreMeta =
  sm_chunk_id :: "pystr option"
  sm_chatbot_id :: "pystr option"
  sm_document_id :: "pystr option"
  sm_manual_id :: "pystr option"
  sm_filename :: "pystr option"
  sm_page :: "int option"
  sm_process_tag :: "pystr option"
  sm_user_group :: "pystr option"
  sm_user_group_tags :: "pystr option"
  sm_image_paths :: "pystr option"
  sm_order_index :: "int option"
  sm_page_chunk_order :: "int option"

record StoreRow =
  row_id :: pystr
  row_document :: pystr
  row_meta :: StoreMeta

text \<open>
  Everything the program calls but does not contain. The answers of the LLM server and the
  clock may depend on the calls made so far. \<open>json.loads\<close>, \<open>json.dumps\<close>, \<open>str\<close> of an
  object that is not a string, \<open>None\<close>, a \<open>bool\<close> or an \<open>int\<close>, \<open>float\<close> and \<open>int\<close> of a
  string, \<open>dict\<close> of an object that is not a \<open>dict\<close>, and \<open>os.path.splitext\<close> are the
  standard library's. The vector store is given by the rows of each existing collection
  and the distance of a row from a query vector; \<open>chroma_installed\<close>, \<open>query_raises\<close> and
  \<open>get_raises\<close> say whether the client can be built and whether a call fails.
\<close>

record env =
  llm_post :: "event list \<Rightarrow> nat \<Rightarrow> pystr \<Rightarrow> http_outcome"
  clock :: "event list \<Rightarrow> real"
  json_loads :: "pystr \<Rightarrow> json option"
  json_dumps :: "json \<Rightarrow> pystr"
  py_repr :: "json \<Rightarrow> pystr"
  py_float :: "pystr \<Rightarrow> real option"
  py_int :: "pystr \<Rightarrow> int option"
  py_dict :: "json \<Rightarrow> pyerr + (pystr \<times> json) list"
  splitext :: "pystr \<Rightarrow> pystr \<times> pystr"
  chroma_installed :: bool
  collections :: "pystr \<Rightarrow> StoreRow list option"
  embed :: "pystr \<Rightarrow> real list option"
  distance :: "real list \<Rightarrow> StoreRow \<Rightarrow> real"
  query_raises :: "where_filter \<Rightarrow> bool"
  get_raises :: "where_filter \<Rightarrow> bool"

text \<open>\<open>str(x)\<close>.\<close>

definition py_str :: "env \<Rightarrow> json \<Rightarrow> pystr" where
  "py_str e x =
     (case x of
        JStr s \<Rightarrow> s
      | JNull \<Rightarrow> ascii ''None''
      | JBool b \<Rightarrow> (if b then ascii ''True'' else ascii ''False'')
      | JInt i \<Rightarrow> str_int i
      | _ \<Rightarrow> py_repr e x)"

text \<open>\<open>float(x)\<close>.\<close>

definition to_float :: "env \<Rightarrow> json \<Rightarrow> pyerr + real" where
  "to_float e x =
     (case x of
        JFloat r \<Rightarrow> Inr r
      | JInt i \<Rightarrow> Inr (real_of_int i)
      | JBool b \<Rightarrow> Inr (if b then 1 else 0)
      | JStr s \<Rightarrow> (case py_float e s of Some r \<Rightarrow> Inr r | None \<Rightarrow> Inl ValueError)
      | _ \<Rightarrow> Inl TypeError)"

text \<open>\<open>dict(x)\<close>.\<close>

definition to_dict :: "env \<Rightarrow> json \<Rightarrow> pyerr + (pystr \<times> json) list" where
  "to_dict e x = (case x of JObj d \<Rightarrow> Inr d | _ \<Rightarrow> py_dict e x)"

section \<open>Chunker (services/embedding/chunking.py)\<close>

record MergedTextBlock =
  mb_page :: int
  mb_block_id :: pystr
  mb_text :: pystr
  mb_src_block_ids :: "pystr list"
  mb_debug_log :: "json list option"

record ChunkMeta =
  cm_filename :: "pystr option"
  cm_page :: int
  cm_document_id :: pystr
  cm_chatbot_id :: pystr
  cm_user_group_tags :: "pystr list"
  cm_process_tag :: pystr
  cm_chunk_order :: int

record TextChunk =
  tc_chunk_id :: pystr
  tc_text :: pystr
  tc_page :: int
  tc_order :: int
  tc_meta :: ChunkMeta

text \<open>The keyword arguments of \<open>_chunkPageText\<close> other than the page text.\<close>

record chunk_args =
  page :: int
  chatbotId :: pystr
  documentId :: pystr
  filename :: "pystr option"
  userGroupTags :: "pystr list"
  maxChars :: int
  overlap :: int

definition makeChunk :: "chunk_args \<Rightarrow> int \<Rightarrow> pystr \<Rightarrow> TextChunk" where
  "makeChunk a ord chunkText =
     \<lparr> tc_chunk_id = documentId a @ ascii ''_p'' @ str_int (page a) @ ascii ''_c'' @ str_int ord,
       tc_text = chunkText,
       tc_page = page a,
       tc_order = ord,
       tc_meta = \<lparr> cm_filename = filename a, cm_page = page a, cm_document_id = documentId a,
                   cm_chatbot_id = chatbotId a, cm_user_group_tags = userGroupTags a,
                   cm_process_tag = ascii ''body'', cm_chunk_order = ord \<rparr> \<rparr>"

text \<open>
  One pass through the body of the \<open>while start < length\<close> loop of \<open>_chunkPageText\<close>:
  either a \<open>break\<close> (with the chunks collected so far) or the state for the next pass.
\<close>

datatype iteration = Break "TextChunk list" | Continue int int "TextChunk list"

definition chunkIteration ::
  "chunk_args \<Rightarrow> pystr \<Rightarrow> int \<Rightarrow> int \<Rightarrow> TextChunk list \<Rightarrow> iteration" where
  "chunkIteration a text start ord chunks =
     (let len = int (length text);
          end = min (start + maxChars a) len;
          chunkText = strip (pyslice text start end)
      in if chunkText = [] then Break chunks
         else let chunks' = chunks @ [makeChunk a ord chunkText]
              in if end \<ge> len then Break chunks'
                 else let start' = end - overlap a
                      in Continue (if start' < 0 then 0 else start') (ord + 1) chunks')"

text \<open>
  The loop itself. Nothing in \<open>_chunkPageText\<close> bounds the number of passes, so the loop is
  a partial function: \<open>None\<close> stands for a loop that never returns.
\<close>

partial_function (option) chunkWhile ::
  "chunk_args \<Rightarrow> pystr \<Rightarrow> int \<Rightarrow> int \<Rightarrow> TextChunk list \<Rightarrow> TextChunk list option" where
  "chunkWhile a text start ord chunks =
     (if start < int (length text) then
        (case chunkIteration a text start ord chunks of
           Break cs \<Rightarrow> Some cs
         | Continue start' ord' cs \<Rightarrow> chunkWhile a text start' ord' cs)
      else Some chunks)"

declare chunkWhile.simps [code]

definition chunkPageText :: "chunk_args \<Rightarrow> pystr \<Rightarrow> TextChunk list option" where
  "chunkPageText a pageText =
     (let text = strip pageText
      in if text = [] then Some [] else chunkWhile a text 0 0 [])"

definition buildPageText :: "MergedTextBlock list \<Rightarrow> pystr" where
  "buildPageText blocks =
     (if blocks = [] then []
      else let texts = filter (\<lambda>t. t \<noteq> []) (map (\<lambda>block. strip (mb_text block)) blocks)
           in if texts = [] then [] else strip (join [10, 10] texts))"

text \<open>
  The loop of \<open>chunkMergedPages\<close> over the sorted page numbers. \<open>mergedPages\<close> is the
  dictionary as the list of its items, each page number occurring once.
\<close>

fun chunkPages ::
  "chunk_args \<Rightarrow> (int \<times> MergedTextBlock list) list \<Rightarrow> int list \<Rightarrow> TextChunk list
     \<Rightarrow> TextChunk list option" where
  "chunkPages a mergedPages [] allChunks = Some allChunks"
| "chunkPages a mergedPages (p # ps) allChunks =
     (let blocks = (case map_of mergedPages p of None \<Rightarrow> [] | Some bs \<Rightarrow> bs);
          pageText = buildPageText blocks
      in if pageText = [] then chunkPages a mergedPages ps allChunks
         else (case chunkPageText (a\<lparr>page := p\<rparr>) pageText of
                 None \<Rightarrow> None
               | Some pageChunks \<Rightarrow> chunkPages a mergedPages ps (allChunks @ pageChunks)))"

text \<open>
  \<open>chunkMergedPages\<close>: \<open>Some (Inl e)\<close> is a raised exception, \<open>Some (Inr cs)\<close> a returned
  list, \<open>None\<close> a call that never returns.
\<close>

definition chunkMergedPages ::
  "(int \<times> MergedTextBlock list) list \<Rightarrow> pystr \<Rightarrow> pystr \<Rightarrow> pystr option \<Rightarrow> pystr list option
     \<Rightarrow> int \<Rightarrow> int \<Rightarrow> (pyerr + TextChunk list) option" where
  "chunkMergedPages mergedPages chatbot document fname tags maxC ovl =
     (if maxC \<le> 0 then Some (Inl ValueError)
      else if ovl < 0 then Some (Inl ValueError)
      else if mergedPages = [] then Some (Inr [])
      else let tags' = (case tags of None \<Rightarrow> [ascii ''default''] | Some [] \<Rightarrow> [ascii ''default'']
                          | Some ts \<Rightarrow> ts);
               a = \<lparr> page = 0, chatbotId = chatbot, documentId = document, filename = fname,
                     userGroupTags = tags', maxChars = maxC, overlap = ovl \<rparr>
           in map_option Inr (chunkPages a mergedPages (sort (remdups (map fst mergedPages))) []))"

subsection \<open>The chunk count and windows the specification names\<close>

text \<open>
  The specification's count \<open>ceil((L - O) / (M - O))\<close>, and the \<open>k\<close>-th window of the
  text: it starts at \<open>k * (M - O)\<close> and is \<open>M\<close> characters long, cut at the end of the text.
\<close>

definition spec_count :: "chunk_args \<Rightarrow> pystr \<Rightarrow> nat" where
  "spec_count a txt =
     nat \<lceil>real_of_int (int (length txt) - overlap a) / real_of_int (maxChars a - overlap a)\<rceil>"

definition spec_window :: "chunk_args \<Rightarrow> pystr \<Rightarrow> nat \<Rightarrow> pystr" where
  "spec_window a txt k =
     pyslice txt (int k * (maxChars a - overlap a))
       (min (int k * (maxChars a - overlap a) + maxChars a) (int (length txt)))"

section \<open>LLM client (services/llm/client.py)\<close>

subsection \<open>The code-block pattern of \<open>parseJson\<close>\<close>

text \<open>
  \<open>parseJson\<close> searches its input with the regular expression
  \<^verbatim>\<open>```(?:json)?\s*(\{.*?\})\s*```\<close>, compiled with \<open>DOTALL\<close> and \<open>IGNORECASE\<close>.
  The functions below are that pattern, matched the way a backtracking matcher does.
  After the opening fence the optional \<open>json\<close> is tried first and skipped only if the rest
  fails. Each greedy \<open>\s*\<close> takes all the whitespace there is: the pattern goes on with
  \<open>{\<close> or a backquote, which are not whitespace, so giving whitespace back never helps.
  The lazy \<open>.*?\<close> (any character, newlines too) stops at the first \<open>}\<close> after which
  optional whitespace and a closing fence follow. Ignoring case, \<open>s\<close> also matches the
  long s (code point 383).
\<close>

definition fence :: pystr where
  "fence = [96, 96, 96]"

definition json_word :: "pystr \<Rightarrow> bool" where
  "json_word s \<longleftrightarrow>
     (case s of
        j # s' # o' # n # _ \<Rightarrow>
          (j = 106 \<or> j = 74) \<and> (s' = 115 \<or> s' = 83 \<or> s' = 383)
          \<and> (o' = 111 \<or> o' = 79) \<and> (n = 110 \<or> n = 78)
      | _ \<Rightarrow> False)"

text \<open>\<open>.*?\}\s*```\<close>: the characters of the group read so far are in \<open>acc\<close>.\<close>

fun lazy_group :: "pystr \<Rightarrow> pystr \<Rightarrow> pystr option" where
  "lazy_group acc [] = None"
| "lazy_group acc (c # cs) =
     (if c = 125 \<and> startswith (dropWhile isspace cs) fence then Some (acc @ [c])
      else lazy_group (acc @ [c]) cs)"

text \<open>\<open>\s*(\{.*?\})\s*```\<close>.\<close>

definition block_body :: "pystr \<Rightarrow> pystr option" where
  "block_body s =
     (case dropWhile isspace s of
        c # cs \<Rightarrow> if c = 123 then lazy_group [c] cs else None
      | [] \<Rightarrow> None)"

text \<open>The whole pattern, anchored at the start of \<open>s\<close>; the result is group 1.\<close>

definition match_here :: "pystr \<Rightarrow> pystr option" where
  "match_here s =
     (if startswith s fence then
        (let r = drop 3 s
         in case (if json_word r then block_body (drop 4 r) else None) of
              Some g \<Rightarrow> Some g
            | None \<Rightarrow> block_body r)
      else None)"

text \<open>\<open>pattern.search\<close>: the match at the leftmost position that has one.\<close>

fun code_block_search :: "pystr \<Rightarrow> pystr option" where
  "code_block_search [] = match_here []"
| "code_block_search (c # cs) =
     (case match_here (c # cs) of Some g \<Rightarrow> Some g | None \<Rightarrow> code_block_search cs)"

subsection \<open>\<open>parseJson\<close>\<close>

text \<open>
  \<open>json.loads\<close> belongs to the standard library; it is a parameter \<open>loads\<close> that gives the
  decoded document, or \<open>None\<close> where \<open>json.loads\<close> raises. \<open>Inl ValueError\<close> is the
  \<open>ValueError\<close> that \<open>parseJson\<close> raises.
\<close>

definition parseJson :: "(pystr \<Rightarrow> json option) \<Rightarrow> pystr \<Rightarrow> pyerr + json" where
  "parseJson loads raw0 =
     (let raw = strip raw0
      in if raw = [] then Inl ValueError
         else case (if startswith raw [123] \<and> endswith raw [125] then loads raw else None) of
           Some v \<Rightarrow> Inr v
         | None \<Rightarrow>
            (case (case code_block_search raw of
                     Some g \<Rightarrow> loads (strip g)
                   | None \<Rightarrow> None) of
               Some v \<Rightarrow> Inr v
             | None \<Rightarrow>
                (let first = pyfind raw [123];
                     last = pyrfind raw [125]
                 in if first = - 1 \<or> last = - 1 \<or> last \<le> first then Inl ValueError
                    else let json_str = strip (pyslice raw first (last + 1));
                             trailing_backtick = pyrfind json_str fence;
                             json_str' = (if trailing_backtick \<noteq> - 1
                                          then strip (pyslice json_str 0 trailing_backtick)
                                          else json_str)
                         in case loads json_str' of
                              Some v \<Rightarrow> Inr v
                            | None \<Rightarrow> Inl ValueError)))"

subsection \<open>The three recovery attempts the specification names\<close>

text \<open>
  Each attempt gives the parsed document or \<open>None\<close>; \<open>raw\<close> is the trimmed input.
  (1) The whole string, when it starts with \<open>{\<close> and ends with \<open>}\<close>.
  (2) The contents of the first fenced code block.
  (3) The substring from the first \<open>{\<close> to the last \<open>}\<close>, cut before a stray fence.
\<close>

definition spec_whole :: "(pystr \<Rightarrow> json option) \<Rightarrow> pystr \<Rightarrow> json option" where
  "spec_whole loads raw =
     (if raw \<noteq> [] \<and> hd raw = 123 \<and> last raw = 125 then loads raw else None)"

definition spec_fenced :: "(pystr \<Rightarrow> json option) \<Rightarrow> pystr \<Rightarrow> json option" where
  "spec_fenced loads raw = Option.bind (code_block_search raw) (\<lambda>g. loads (strip g))"

definition spec_brace_span :: "pystr \<Rightarrow> pystr" where
  "spec_brace_span raw =
     rev (dropWhile (\<lambda>c. c \<noteq> 125) (rev (dropWhile (\<lambda>c. c \<noteq> 123) raw)))"

definition spec_cut_fence :: "pystr \<Rightarrow> pystr" where
  "spec_cut_fence s =
     (if pyrfind s fence = - 1 then s else strip (take (nat (pyrfind s fence)) s))"

definition spec_braces :: "(pystr \<Rightarrow> json option) \<Rightarrow> pystr \<Rightarrow> json option" where
  "spec_braces loads raw =
     (if spec_brace_span raw = [] then None else loads (spec_cut_fence (spec_brace_span raw)))"

definition spec_parseJson :: "(pystr \<Rightarrow> json option) \<Rightarrow> pystr \<Rightarrow> pyerr + json" where
  "spec_parseJson loads raw0 =
     (case spec_whole loads (strip raw0) of
        Some v \<Rightarrow> Inr v
      | None \<Rightarrow>
         (case spec_fenced loads (strip raw0) of
            Some v \<Rightarrow> Inr v
          | None \<Rightarrow>
             (case spec_braces loads (strip raw0) of
                Some v \<Rightarrow> Inr v
              | None \<Rightarrow> Inl ValueError)))"

subsection \<open>\<open>callQwen\<close>\<close>

text \<open>
  A call returns its result, \<open>Inl\<close> for a raised exception, together with the calls made
  so far. \<open>callQwen\<close> raises \<open>RuntimeError\<close> when the request fails, when the status is not
  200, and when the body is not the expected JSON; otherwise it returns \<open>content or ""\<close>.
\<close>

definition callQwen :: "env \<Rightarrow> event list \<Rightarrow> nat \<Rightarrow> pystr \<Rightarrow> (pyerr + pystr) \<times> event list" where
  "callQwen e tr task_id input_payload =
     (let tr' = tr @ [EvLLM task_id input_payload]
      in case llm_post e tr task_id input_payload of
           RequestException \<Rightarrow> (Inl RuntimeError, tr')
         | Response status_code body \<Rightarrow>
             if status_code \<noteq> 200 then (Inl RuntimeError, tr')
             else (case body of
                     NotJson \<Rightarrow> (Inl RuntimeError, tr')
                   | BadFormat \<Rightarrow> (Inl RuntimeError, tr')
                   | Content c \<Rightarrow> (Inr (case c of None \<Rightarrow> [] | Some s \<Rightarrow> s), tr')))"

section \<open>Query refinement (services/llm/queryRefine.py)\<close>

record QueryRefineResult =
  qr_normalized_query :: pystr
  qr_keywords :: "pystr list"
  qr_filters :: "(pystr \<times> json) list"
  qr_meta :: "(pystr \<times> json) list"

definition defaultFilters :: "(pystr \<times> json) list" where
  "defaultFilters =
     [(ascii ''doc_type'', JNull), (ascii ''section_hint'', JNull),
      (ascii ''target_group'', JNull), (ascii ''manual_tags'', JArr [])]"

text \<open>
  The part of \<open>refineQuery\<close> after a successful \<open>parseJson\<close>, on the decoded \<open>data\<close>.
  \<open>.get\<close> and \<open>.setdefault\<close> raise \<open>AttributeError\<close> on an object that is not a \<open>dict\<close>,
  and the \<open>len(normalizedQuery or "")\<close> of the log call raises \<open>TypeError\<close> on a number.
\<close>

definition refineFromData :: "env \<Rightarrow> pystr \<Rightarrow> json \<Rightarrow> pyerr + QueryRefineResult" where
  "refineFromData e question data =
     (case attr_get_default data (ascii ''normalized_query'') (JStr question) of
        Inl err \<Rightarrow> Inl err
      | Inr normalizedQuery \<Rightarrow>
     (case attr_get_default data (ascii ''keywords'') (JArr []) of
        Inl err \<Rightarrow> Inl err
      | Inr keywords0 \<Rightarrow>
     (case attr_get data (ascii ''filters'') of
        Inl err \<Rightarrow> Inl err
      | Inr filters0 \<Rightarrow>
     (case attr_get data (ascii ''meta'') of
        Inl err \<Rightarrow> Inl err
      | Inr meta0 \<Rightarrow>
     (case py_or filters0 (JObj []) of
        JObj filters1 \<Rightarrow>
          (case py_or meta0 (JObj []) of
             JObj meta1 \<Rightarrow>
               (let keywords = py_or keywords0 (JArr []);
                    filters =
                      setdefault (setdefault (setdefault (setdefault filters1
                        (ascii ''doc_type'') JNull) (ascii ''section_hint'') JNull)
                        (ascii ''target_group'') JNull) (ascii ''manual_tags'') (JArr []);
                    meta2 = setdefault (setdefault meta1 (ascii ''original_query'') (JStr question))
                              (ascii ''in_scope'') (JBool True);
                    safetyMeta0 = (case py_or (dict_get meta2 (ascii ''safety'')) (JObj []) of
                                     JObj s \<Rightarrow> s | _ \<Rightarrow> []);
                    safetyMeta =
                      setdefault (setdefault (setdefault safetyMeta0
                        (ascii ''block_required'') (JBool False)) (ascii ''category'')
                        (JStr (ascii ''unknown''))) (ascii ''reason'') JNull;
                    meta = dict_set meta2 (ascii ''safety'') (JObj safetyMeta);
                    keywords' = (case keywords of JArr ks \<Rightarrow> ks | _ \<Rightarrow> [JStr (py_str e keywords)])
                in case len_or_empty normalizedQuery of
                     Inl err \<Rightarrow> Inl err
                   | Inr _ \<Rightarrow>
                       Inr \<lparr> qr_normalized_query = py_str e normalizedQuery,
                             qr_keywords = map (py_str e) keywords',
                             qr_filters = filters,
                             qr_meta = meta \<rparr>)
           | _ \<Rightarrow> Inl AttributeError)
      | _ \<Rightarrow> Inl AttributeError)))))"

definition refineQuery ::
  "env \<Rightarrow> event list \<Rightarrow> pystr \<Rightarrow> pystr \<Rightarrow> pystr option
     \<Rightarrow> (pyerr + QueryRefineResult) \<times> event list" where
  "refineQuery e tr question chatbot userGroup =
     (let inputObj = JObj [(ascii ''question'', JStr question), (ascii ''chatbot_id'', JStr chatbot),
                           (ascii ''user_group'', (case userGroup of None \<Rightarrow> JNull | Some g \<Rightarrow> JStr g))]
      in case callQwen e tr 1 (json_dumps e inputObj) of
           (Inl err, tr') \<Rightarrow> (Inl err, tr')
         | (Inr raw, tr') \<Rightarrow>
             (case parseJson (json_loads e) raw of
                Inl _ \<Rightarrow>
                  (Inr \<lparr> qr_normalized_query = question, qr_keywords = [],
                         qr_filters = defaultFilters,
                         qr_meta = [(ascii ''original_query'', JStr question)] \<rparr>, tr')
              | Inr data \<Rightarrow> (refineFromData e question data, tr')))"

section \<open>Vector search (services/retrieval/search.py)\<close>

text \<open>\<open>COLLECTION_PREFIX\<close> is read from the process environment; this is its default.\<close>

definition COLLECTION_PREFIX :: pystr where
  "COLLECTION_PREFIX = ascii ''chatbot_''"

definition collectionName :: "pystr \<Rightarrow> pystr" where
  "collectionName chatbot = COLLECTION_PREFIX @ chatbot"

text \<open>
  \<open>_tryGetCollection\<close>: \<open>_getClient\<close> raises \<open>RuntimeError\<close> when chromadb is missing; a
  collection that cannot be fetched is \<open>None\<close>.
\<close>

definition tryGetCollection ::
  "env \<Rightarrow> event list \<Rightarrow> pystr \<Rightarrow> (pyerr + StoreRow list option) \<times> event list" where
  "tryGetCollection e tr chatbot =
     (if \<not> chroma_installed e then (Inl RuntimeError, tr)
      else (Inr (collections e (collectionName chatbot)),
            tr @ [EvGetCollection (collectionName chatbot)]))"

definition buildWhere :: "pystr \<Rightarrow> pystr option \<Rightarrow> where_filter" where
  "buildWhere chatbot userGroup =
     (let filters = [ChatbotEq chatbot]
                    @ (case userGroup of
                         None \<Rightarrow> []
                       | Some g \<Rightarrow> if g \<noteq> [] then [UserGroupEq g] else [])
      in if length filters = 1 then Single (hd filters) else AllOf filters)"

text \<open>When a record's metadata satisfies a filter, in the store.\<close>

fun cond_holds :: "cond \<Rightarrow> StoreMeta \<Rightarrow> bool" where
  "cond_holds (ChatbotEq c) m = (sm_chatbot_id m = Some c)"
| "cond_holds (UserGroupEq g) m = (sm_user_group m = Some g)"
| "cond_holds (DocumentEq d) m = (sm_document_id m = Some d)"
| "cond_holds (OrderGte k) m = (case sm_order_index m of None \<Rightarrow> False | Some i \<Rightarrow> k \<le> i)"
| "cond_holds (OrderLte k) m = (case sm_order_index m of None \<Rightarrow> False | Some i \<Rightarrow> i \<le> k)"

fun matches :: "where_filter \<Rightarrow> StoreMeta \<Rightarrow> bool" where
  "matches (Single c) m = cond_holds c m"
| "matches (AllOf cs) m = list_all (\<lambda>c. cond_holds c m) cs"

text \<open>
  \<open>collection.query\<close>: the \<open>n_results\<close> nearest records among those that satisfy the
  filter, nearest first, each with its distance; it raises for \<open>n_results \<le> 0\<close>.
  \<open>collection.get\<close>: the records that satisfy the filter.
\<close>

definition col_query ::
  "env \<Rightarrow> StoreRow list \<Rightarrow> real list \<Rightarrow> where_filter \<Rightarrow> int \<Rightarrow> pyerr + (StoreRow \<times> real) list" where
  "col_query e rows vec w n =
     (if query_raises e w \<or> n \<le> 0 then Inl ValueError
      else Inr (take (nat n)
                  (sort_key snd
                     (map (\<lambda>r. (r, distance e vec r))
                        (filter (\<lambda>r. matches w (row_meta r)) rows)))))"

definition col_get :: "env \<Rightarrow> StoreRow list \<Rightarrow> where_filter \<Rightarrow> pyerr + StoreRow list" where
  "col_get e rows w =
     (if get_raises e w then Inl RuntimeError
      else Inr (filter (\<lambda>r. matches w (row_meta r)) rows))"

record SearchMeta =
  bm_filename :: "pystr option"
  bm_page :: int
  bm_document_id :: "pystr option"
  bm_manual_id :: "pystr option"
  bm_chatbot_id :: "pystr option"
  bm_process_tag :: "pystr option"
  bm_user_group_tags :: "pystr option"
  bm_image_paths :: "pystr option"
  bm_order_index :: "int option"
  bm_page_chunk_order :: "int option"

record RawChunk =
  rc_chunk_id :: "pystr option"
  rc_text :: pystr
  rc_score :: real
  rc_meta :: SearchMeta

text \<open>\<open>a or b\<close> for two optional strings: \<open>None\<close> and the empty string are false.\<close>

definition str_or :: "pystr option \<Rightarrow> pystr option \<Rightarrow> pystr option" where
  "str_or a b = (case a of None \<Rightarrow> b | Some s \<Rightarrow> if s \<noteq> [] then Some s else b)"

definition buildMeta :: "StoreMeta \<Rightarrow> SearchMeta" where
  "buildMeta metaRaw =
     (let documentId = str_or (sm_document_id metaRaw) (sm_manual_id metaRaw)
      in \<lparr> bm_filename = sm_filename metaRaw,
           bm_page = (case sm_page metaRaw of None \<Rightarrow> 0 | Some p \<Rightarrow> p),
           bm_document_id = documentId,
           bm_manual_id = str_or (sm_manual_id metaRaw) documentId,
           bm_chatbot_id = sm_chatbot_id metaRaw,
           bm_process_tag = sm_process_tag metaRaw,
           bm_user_group_tags = sm_user_group_tags metaRaw,
           bm_image_paths = sm_image_paths metaRaw,
           bm_order_index = sm_order_index metaRaw,
           bm_page_chunk_order = sm_page_chunk_order metaRaw \<rparr>)"

text \<open>The chunk id of a record: the metadata's \<open>chunk_id\<close>, or else the record's id.\<close>

definition chunkIdOf :: "StoreRow \<Rightarrow> pystr option" where
  "chunkIdOf r = str_or (sm_chunk_id (row_meta r)) (Some (row_id r))"

definition baseChunk :: "StoreRow \<times> real \<Rightarrow> RawChunk" where
  "baseChunk hit =
     (case hit of (r, dst) \<Rightarrow>
        \<lparr> rc_chunk_id = chunkIdOf r, rc_text = row_document r,
          rc_score = (if 1 + dst = 0 then 0 else 1 / (1 + dst)),
          rc_meta = buildMeta (row_meta r) \<rparr>)"

definition searchTopK ::
  "env \<Rightarrow> event list \<Rightarrow> pystr \<Rightarrow> pystr \<Rightarrow> pystr option \<Rightarrow> int
     \<Rightarrow> (pyerr + RawChunk list) \<times> event list" where
  "searchTopK e tr normalizedQuery chatbot userGroup topK =
     (case tryGetCollection e tr chatbot of
        (Inl err, tr1) \<Rightarrow> (Inl err, tr1)
      | (Inr None, tr1) \<Rightarrow> (Inr [], tr1)
      | (Inr (Some rows), tr1) \<Rightarrow>
          (let tr2 = tr1 @ [EvEmbed normalizedQuery]
           in case embed e normalizedQuery of
                None \<Rightarrow> (Inr [], tr2)
              | Some queryVec \<Rightarrow>
                  (let w = buildWhere chatbot userGroup;
                       tr3 = tr2 @ [EvQuery w topK]
                   in case col_query e rows queryVec w topK of
                        Inl _ \<Rightarrow> (Inr [], tr3)
                      | Inr hits \<Rightarrow> (Inr (map baseChunk hits), tr3))))"

text \<open>
  The first loop of \<open>searchTopKWithNeighbors\<close>: the ids seen, and for each document of a
  base hit the order indices wanted, \<open>order_index + d\<close> for \<open>d\<close> in
  \<open>range(-neighborRadius, neighborRadius + 1)\<close> without \<open>0\<close>. The dictionary keeps the
  documents in the order they were first met; a set of integers is a list without
  repetition.
\<close>

definition addTargets :: "(pystr \<times> int list) list \<Rightarrow> pystr \<Rightarrow> int list \<Rightarrow> (pystr \<times> int list) list" where
  "addTargets targets doc_id new =
     (if map_of targets doc_id = None then targets @ [(doc_id, remdups new)]
      else map (\<lambda>(d, s). if d = doc_id then (d, List.union s new) else (d, s)) targets)"

definition seeId :: "pystr option \<Rightarrow> pystr list \<Rightarrow> pystr list" where
  "seeId chunk_id seen =
     (case chunk_id of None \<Rightarrow> seen | Some c \<Rightarrow> if c \<noteq> [] then List.insert c seen else seen)"

fun collectTargets ::
  "int \<Rightarrow> RawChunk list \<Rightarrow> (pystr \<times> int list) list \<Rightarrow> pystr list
     \<Rightarrow> (pystr \<times> int list) list \<times> pystr list" where
  "collectTargets radius [] targets seen = (targets, seen)"
| "collectTargets radius (ch # chs) targets seen =
     (let seen' = seeId (rc_chunk_id ch) seen
      in case (bm_document_id (rc_meta ch), bm_order_index (rc_meta ch)) of
           (Some doc_id, Some order_index) \<Rightarrow>
             collectTargets radius chs
               (addTargets targets doc_id
                  (map (\<lambda>d. order_index + d) (filter (\<lambda>d. d \<noteq> 0) [- radius..radius])))
               seen'
         | _ \<Rightarrow> collectTargets radius chs targets seen')"

definition neighborChunk :: "StoreRow \<Rightarrow> RawChunk" where
  "neighborChunk r =
     \<lparr> rc_chunk_id = chunkIdOf r, rc_text = row_document r, rc_score = 0,
       rc_meta = buildMeta (row_meta r) \<rparr>"

text \<open>The inner loop over the records that one \<open>collection.get\<close> returned.\<close>

fun addNeighbors ::
  "int list \<Rightarrow> StoreRow list \<Rightarrow> RawChunk list \<Rightarrow> pystr list \<Rightarrow> RawChunk list \<times> pystr list" where
  "addNeighbors order_set [] neighborChunks seen = (neighborChunks, seen)"
| "addNeighbors order_set (r # rs) neighborChunks seen =
     (case sm_order_index (row_meta r) of
        None \<Rightarrow> addNeighbors order_set rs neighborChunks seen
      | Some oi \<Rightarrow>
          if oi \<notin> set order_set then addNeighbors order_set rs neighborChunks seen
          else (case chunkIdOf r of
                  Some c \<Rightarrow>
                    if c \<noteq> [] \<and> c \<in> set seen then addNeighbors order_set rs neighborChunks seen
                    else addNeighbors order_set rs (neighborChunks @ [neighborChunk r])
                           (seeId (Some c) seen)
                | None \<Rightarrow> addNeighbors order_set rs (neighborChunks @ [neighborChunk r]) seen))"

text \<open>The loop over the documents: one \<open>collection.get\<close> for each.\<close>

fun fetchNeighbors ::
  "env \<Rightarrow> StoreRow list \<Rightarrow> (pystr \<times> int list) list \<Rightarrow> RawChunk list \<Rightarrow> pystr list
     \<Rightarrow> event list \<Rightarrow> RawChunk list \<times> pystr list \<times> event list" where
  "fetchNeighbors e rows [] neighborChunks seen tr = (neighborChunks, seen, tr)"
| "fetchNeighbors e rows ((doc_id, order_set) # rest) neighborChunks seen tr =
     (if order_set = [] then fetchNeighbors e rows rest neighborChunks seen tr
      else let w = AllOf [DocumentEq doc_id, OrderGte (Min (set order_set)),
                          OrderLte (Max (set order_set))];
               tr' = tr @ [EvGet w]
           in case col_get e rows w of
                Inl _ \<Rightarrow> fetchNeighbors e rows rest neighborChunks seen tr'
              | Inr res \<Rightarrow>
                  (case addNeighbors order_set res neighborChunks seen of
                     (neighborChunks', seen') \<Rightarrow>
                       fetchNeighbors e rows rest neighborChunks' seen' tr'))"

definition neighborKey :: "RawChunk \<Rightarrow> pystr \<times> int" where
  "neighborKey ch =
     ((case bm_document_id (rc_meta ch) of None \<Rightarrow> [] | Some d \<Rightarrow> d),
      (case bm_order_index (rc_meta ch) of None \<Rightarrow> - 1 | Some i \<Rightarrow> i))"

definition searchTopKWithNeighbors ::
  "env \<Rightarrow> event list \<Rightarrow> pystr \<Rightarrow> pystr \<Rightarrow> pystr option \<Rightarrow> int \<Rightarrow> int
     \<Rightarrow> (pyerr + RawChunk list) \<times> event list" where
  "searchTopKWithNeighbors e tr normalizedQuery chatbot userGroup topK neighborRadius =
     (case searchTopK e tr normalizedQuery chatbot userGroup topK of
        (Inl err, tr1) \<Rightarrow> (Inl err, tr1)
      | (Inr baseChunks, tr1) \<Rightarrow>
          if baseChunks = [] \<or> neighborRadius \<le> 0 then (Inr baseChunks, tr1)
          else (case tryGetCollection e tr1 chatbot of
                  (Inl err, tr2) \<Rightarrow> (Inl err, tr2)
                | (Inr None, tr2) \<Rightarrow> (Inr baseChunks, tr2)
                | (Inr (Some rows), tr2) \<Rightarrow>
                    (case collectTargets neighborRadius baseChunks [] [] of
                       (targets, seen) \<Rightarrow>
                         (case fetchNeighbors e rows targets [] seen tr2 of
                            (neighborChunks, seen', tr3) \<Rightarrow>
                              (Inr (baseChunks @ sort_key neighborKey neighborChunks), tr3)))))"

section \<open>Answer generation (services/llm/answerGeneration.py)\<close>

text \<open>
  The three fixed answers of the query pipeline, as the code points of the source's string
  literals: the policy refusal, the "insufficient evidence" answer, and the apology of the
  answer stage's fallback.
\<close>

definition policy_refusal_answer :: pystr where
  "policy_refusal_answer =
     [51060, 32, 52311, 48391, 51008, 32, 50629, 47196, 46300, 46108, 32, 47928, 49436,
      47484, 32, 44592, 48152, 51004, 47196, 32, 54620, 32, 50629, 47924, 32, 51656,
      51032, 51025, 45813, 50857, 51077, 45768, 45796, 46, 10, 54644, 45817, 32, 51656,
      47928, 51008, 32, 49436, 48708, 49828, 32, 51221, 52293, 49345, 32, 45813, 48320,
      54616, 51648, 32, 50506, 49845, 45768, 45796, 46]"

definition insufficient_evidence_answer :: pystr where
  "insufficient_evidence_answer =
     [51060, 32, 52311, 48391, 51008, 32, 50629, 47196, 46300, 46108, 32, 47928, 49436,
      47484, 32, 44592, 48152, 51004, 47196, 47564, 32, 45813, 48320, 54633, 45768,
      45796, 46, 10, 54788, 51116, 32, 51656, 47928, 44284, 32, 51649, 51217, 51201,
      51004, 47196, 32, 50672, 44288, 46108, 32, 47928, 49436, 32, 45236, 50857, 51012,
      32, 52286, 51648, 32, 47803, 54644, 44, 32, 51076, 51032, 47196, 32, 52628, 52769,
      54644, 49436, 32, 45813, 48320, 54616, 51648, 32, 50506, 44192, 49845, 45768,
      45796, 46]"

definition fallback_apology_answer :: pystr where
  "fallback_apology_answer =
     [45813, 48320, 32, 49373, 49457, 32, 51473, 32, 50724, 47448, 44032, 32, 48156,
      49373, 54664, 49845, 45768, 45796, 46, 32, 51104, 49884, 32, 54980, 32, 45796,
      49884, 32, 49884, 46020, 54644, 32, 51452, 49464, 50836, 46, 10, 51060, 32, 52311,
      48391, 51008, 32, 47928, 49436, 50640, 32, 44540, 44144, 54616, 51648, 32, 50506,
      51008, 32, 45236, 50857, 51012, 32, 51076, 51032, 47196, 32, 49373, 49457, 54616,
      51648, 32, 50506, 49845, 45768, 45796, 46]"

record RagMeta =
  rm_retrieval_confidence :: pystr
  rm_intent_ambiguity_level :: pystr
  rm_need_clarification :: bool

text \<open>
  The \<open>meta\<close> of a \<open>QueryContextChunk\<close> is a copy of a search hit's metadata, or the
  dictionary the model returned for the chunk; its \<open>chunk_id\<close> is whatever \<open>.get\<close> gave.
\<close>

datatype ctx_meta = StoreDict SearchMeta | ModelDict "(pystr \<times> json) list"

record QueryContextChunk =
  qc_chunk_id :: json
  qc_text :: pystr
  qc_score :: real
  qc_meta :: ctx_meta

record AnswerResult =
  ar_answer :: pystr
  ar_supporting_chunks :: "QueryContextChunk list"
  ar_meta :: RagMeta

definition MAX_SUPPORTING_CHUNKS_IN_RESULT :: nat where
  "MAX_SUPPORTING_CHUNKS_IN_RESULT = 5"

text \<open>A search hit as a \<open>QueryContextChunk\<close>, and as the JSON object sent to the model.\<close>

definition opt_json :: "pystr option \<Rightarrow> json" where
  "opt_json s = (case s of None \<Rightarrow> JNull | Some t \<Rightarrow> JStr t)"

definition toContext :: "RawChunk \<Rightarrow> QueryContextChunk" where
  "toContext c =
     \<lparr> qc_chunk_id = opt_json (rc_chunk_id c), qc_text = rc_text c, qc_score = rc_score c,
       qc_meta = StoreDict (rc_meta c) \<rparr>"

definition metaJson :: "SearchMeta \<Rightarrow> json" where
  "metaJson m =
     JObj [(ascii ''filename'', opt_json (bm_filename m)),
           (ascii ''page'', JInt (bm_page m)),
           (ascii ''document_id'', opt_json (bm_document_id m)),
           (ascii ''manual_id'', opt_json (bm_manual_id m)),
           (ascii ''chatbot_id'', opt_json (bm_chatbot_id m)),
           (ascii ''process_tag'', opt_json (bm_process_tag m)),
           (ascii ''user_group_tags'',
              (case bm_user_group_tags m of None \<Rightarrow> JArr [] | Some t \<Rightarrow> JStr t)),
           (ascii ''image_paths'',
              (case bm_image_paths m of None \<Rightarrow> JArr [] | Some t \<Rightarrow> JStr t)),
           (ascii ''order_index'',
              (case bm_order_index m of None \<Rightarrow> JNull | Some i \<Rightarrow> JInt i)),
           (ascii ''page_chunk_order'',
              (case bm_page_chunk_order m of None \<Rightarrow> JNull | Some i \<Rightarrow> JInt i))]"

definition chunkJson :: "RawChunk \<Rightarrow> json" where
  "chunkJson c =
     JObj [(ascii ''chunk_id'', opt_json (rc_chunk_id c)), (ascii ''text'', JStr (rc_text c)),
           (ascii ''score'', JFloat (rc_score c)), (ascii ''meta'', metaJson (rc_meta c))]"

text \<open>
  \<open>sorted(chunks, key = score, reverse=True)\<close>: the sort is stable, and chunks of equal
  score keep their order.
\<close>

definition sortByScoreDesc :: "RawChunk list \<Rightarrow> RawChunk list" where
  "sortByScoreDesc chunks = sort_key (\<lambda>c. - rc_score c) chunks"

definition fallbackAnswer :: "RawChunk list \<Rightarrow> pystr \<Rightarrow> pystr \<Rightarrow> AnswerResult" where
  "fallbackAnswer chunks retrievalConfidence intentAmbiguityLevel =
     \<lparr> ar_answer = fallback_apology_answer,
       ar_supporting_chunks =
         map toContext (take MAX_SUPPORTING_CHUNKS_IN_RESULT (sortByScoreDesc chunks)),
       ar_meta = \<lparr> rm_retrieval_confidence = retrievalConfidence,
                   rm_intent_ambiguity_level = intentAmbiguityLevel,
                   rm_need_clarification = False \<rparr> \<rparr>"

text \<open>
  The chunks the model returned under \<open>supporting_chunks\<close>. The sort key
  \<open>float(c.get("score") or 0.0)\<close> is computed for every element; if one of them raises,
  the \<open>except\<close> branch takes the first five unsorted. Building a \<open>QueryContextChunk\<close>
  from an element raises outside any \<open>try\<close>.
\<close>

definition scoreKey :: "env \<Rightarrow> json \<Rightarrow> pyerr + real" where
  "scoreKey e c =
     (case attr_get c (ascii ''score'') of
        Inl err \<Rightarrow> Inl err
      | Inr s \<Rightarrow> to_float e (py_or s (JFloat 0)))"

fun allKeys :: "env \<Rightarrow> json list \<Rightarrow> real list option" where
  "allKeys e [] = Some []"
| "allKeys e (c # cs) =
     (case scoreKey e c of
        Inl _ \<Rightarrow> None
      | Inr k \<Rightarrow> (case allKeys e cs of None \<Rightarrow> None | Some ks \<Rightarrow> Some (k # ks)))"

definition contextFromModel :: "env \<Rightarrow> json \<Rightarrow> pyerr + QueryContextChunk" where
  "contextFromModel e c =
     (case attr_get c (ascii ''chunk_id'') of
        Inl err \<Rightarrow> Inl err
      | Inr chunk_id \<Rightarrow>
          (case to_float e (py_or (case c of JObj d \<Rightarrow> dict_get d (ascii ''score'') | _ \<Rightarrow> JNull)
                              (JFloat 0)) of
             Inl err \<Rightarrow> Inl err
           | Inr score \<Rightarrow>
               (case to_dict e (py_or (case c of JObj d \<Rightarrow> dict_get d (ascii ''meta'') | _ \<Rightarrow> JNull)
                                  (JObj [])) of
                  Inl err \<Rightarrow> Inl err
                | Inr meta \<Rightarrow>
                    Inr \<lparr> qc_chunk_id = chunk_id,
                          qc_text = py_str e
                            (py_or (case c of JObj d \<Rightarrow> dict_get d (ascii ''text'') | _ \<Rightarrow> JNull)
                               (JStr [])),
                          qc_score = score,
                          qc_meta = ModelDict meta \<rparr>)))"

fun contextsFromModel :: "env \<Rightarrow> json list \<Rightarrow> pyerr + QueryContextChunk list" where
  "contextsFromModel e [] = Inr []"
| "contextsFromModel e (c # cs) =
     (case contextFromModel e c of
        Inl err \<Rightarrow> Inl err
      | Inr x \<Rightarrow> (case contextsFromModel e cs of Inl err \<Rightarrow> Inl err | Inr xs \<Rightarrow> Inr (x # xs)))"

text \<open>
  A true \<open>supporting_chunks\<close> that is not a list: a string leads to \<open>.get\<close> on its
  characters, and a \<open>dict\<close> or a number cannot be sliced after the sort has failed.
\<close>

definition supportingFromModel :: "env \<Rightarrow> json \<Rightarrow> pyerr + QueryContextChunk list" where
  "supportingFromModel e rawChunks =
     (case rawChunks of
        JArr items \<Rightarrow>
          contextsFromModel e
            (take MAX_SUPPORTING_CHUNKS_IN_RESULT
               (case allKeys e items of
                  None \<Rightarrow> items
                | Some keys \<Rightarrow> map snd (sort_key (\<lambda>p. - fst p) (zip keys items))))
      | JStr _ \<Rightarrow> Inl AttributeError
      | _ \<Rightarrow> Inl TypeError)"

text \<open>The part of \<open>generateAnswerWithContext\<close> after a successful \<open>parseJson\<close>.\<close>

definition answerFromData ::
  "env \<Rightarrow> json \<Rightarrow> pystr \<Rightarrow> pystr \<Rightarrow> RawChunk list \<Rightarrow> pyerr + AnswerResult" where
  "answerFromData e data retrievalConfidence intentAmbiguityLevel contextChunks =
     (case attr_get data (ascii ''answer'') of
        Inl err \<Rightarrow> Inl err
      | Inr answer0 \<Rightarrow>
          (let answerText = strip (py_str e (py_or answer0 (JStr [])))
           in if answerText = []
              then Inr (fallbackAnswer contextChunks retrievalConfidence intentAmbiguityLevel)
              else (case data of
                      JObj d \<Rightarrow>
                        (case py_or (dict_get d (ascii ''meta'')) (JObj []) of
                           JObj rawMeta0 \<Rightarrow>
                             (let rawMeta =
                                    setdefault (setdefault (setdefault rawMeta0
                                      (ascii ''retrieval_confidence'') (JStr retrievalConfidence))
                                      (ascii ''intent_ambiguity_level'') (JStr intentAmbiguityLevel))
                                      (ascii ''need_clarification'') (JBool False);
                                  meta =
                                    \<lparr> rm_retrieval_confidence =
                                        py_str e (py_or (dict_get rawMeta (ascii ''retrieval_confidence''))
                                                    (JStr (ascii ''unknown''))),
                                      rm_intent_ambiguity_level =
                                        py_str e (py_or (dict_get rawMeta (ascii ''intent_ambiguity_level''))
                                                    (JStr (ascii ''unknown''))),
                                      rm_need_clarification =
                                        truthy (dict_get rawMeta (ascii ''need_clarification'')) \<rparr>;
                                  rawChunks = dict_get d (ascii ''supporting_chunks'')
                              in case (if truthy rawChunks then supportingFromModel e rawChunks
                                       else Inr (map toContext
                                                   (take MAX_SUPPORTING_CHUNKS_IN_RESULT
                                                      (sortByScoreDesc contextChunks)))) of
                                   Inl err \<Rightarrow> Inl err
                                 | Inr ctxChunks \<Rightarrow>
                                     Inr \<lparr> ar_answer = answerText,
                                           ar_supporting_chunks = ctxChunks,
                                           ar_meta = meta \<rparr>)
                         | _ \<Rightarrow> Inl AttributeError)
                    | _ \<Rightarrow> Inl AttributeError)))"

definition generateAnswerWithContext ::
  "env \<Rightarrow> event list \<Rightarrow> pystr \<Rightarrow> pystr \<Rightarrow> pystr list \<Rightarrow> (pystr \<times> json) list \<Rightarrow> pystr \<Rightarrow> pystr
     \<Rightarrow> RawChunk list \<Rightarrow> (pyerr + AnswerResult) \<times> event list" where
  "generateAnswerWithContext e tr question normalizedQuery keywords filters retrievalConfidence
       intentAmbiguityLevel contextChunks =
     (let inputObj =
            JObj [(ascii ''question'', JStr question),
                  (ascii ''normalized_query'', JStr normalizedQuery),
                  (ascii ''keywords'', JArr (map JStr keywords)),
                  (ascii ''filters'', JObj filters),
                  (ascii ''retrieval_confidence'', JStr retrievalConfidence),
                  (ascii ''intent_ambiguity_level'', JStr intentAmbiguityLevel),
                  (ascii ''context_chunks'', JArr (map chunkJson contextChunks))]
      in case callQwen e tr 2 (json_dumps e inputObj) of
           (Inl err, tr') \<Rightarrow> (Inl err, tr')
         | (Inr raw, tr') \<Rightarrow>
             (case parseJson (json_loads e) raw of
                Inl _ \<Rightarrow>
                  (Inr (fallbackAnswer contextChunks retrievalConfidence intentAmbiguityLevel), tr')
              | Inr data \<Rightarrow>
                  (answerFromData e data retrievalConfidence intentAmbiguityLevel contextChunks,
                   tr')))"

section \<open>Query pipeline (services/queryService.py)\<close>

definition MIN_CONFIDENCE_LEVEL_FOR_ANSWER :: pystr where
  "MIN_CONFIDENCE_LEVEL_FOR_ANSWER = ascii ''low''"

definition CONFIDENCE_ORDER :: "pystr list" where
  "CONFIDENCE_ORDER = [ascii ''unknown'', ascii ''low'', ascii ''medium'', ascii ''high'']"

definition MAX_CONTEXT_CHUNKS_FOR_LLM :: nat where
  "MAX_CONTEXT_CHUNKS_FOR_LLM = 10"

text \<open>\<open>xs.index(x)\<close>, \<open>None\<close> where it raises \<open>ValueError\<close>.\<close>

fun list_index :: "'a list \<Rightarrow> 'a \<Rightarrow> nat option" where
  "list_index [] x = None"
| "list_index (y # ys) x = (if y = x then Some 0 else map_option Suc (list_index ys x))"

definition confidenceBelowMinimum :: "pystr \<Rightarrow> bool" where
  "confidenceBelowMinimum level =
     (case list_index CONFIDENCE_ORDER level of
        None \<Rightarrow> True
      | Some i \<Rightarrow>
          (case list_index CONFIDENCE_ORDER MIN_CONFIDENCE_LEVEL_FOR_ANSWER of
             None \<Rightarrow> True
           | Some j \<Rightarrow> i < j))"

text \<open>The scores are real numbers here; the rounding of Python's floats is left out.\<close>

definition estimateRetrievalConfidence :: "real \<Rightarrow> pystr" where
  "estimateRetrievalConfidence maxScore =
     (if maxScore \<ge> 85 / 100 then ascii ''high''
      else if maxScore \<ge> 65 / 100 then ascii ''medium''
      else if maxScore \<ge> 40 / 100 then ascii ''low''
      else ascii ''unknown'')"

definition analyzeIntentAmbiguity :: "nat \<Rightarrow> pystr" where
  "analyzeIntentAmbiguity numChunks =
     (if numChunks = 0 then ascii ''high''
      else if numChunks \<le> 2 then ascii ''medium''
      else ascii ''low'')"

subsection \<open>\<open>_collectImagesFromChunks\<close>\<close>

record ImageInfo =
  ii_image_key :: pystr
  ii_document_id :: "pystr option"
  ii_page :: "int option"
  ii_image_index :: "int option"
  ii_related_chunk_ids :: "pystr list"

record Image =
  img_image_key :: pystr
  img_document_id :: "pystr option"
  img_page :: "int option"
  img_image_index :: "int option"
  img_url :: pystr
  img_related_chunk_ids :: "pystr list"

text \<open>
  The paths stored under \<open>image_paths\<close>: the decoded JSON list without its \<open>null\<close>s, or
  the string itself when it is not the JSON of a list.
\<close>

definition imagePaths :: "env \<Rightarrow> pystr \<Rightarrow> pystr list" where
  "imagePaths e raw_image_paths =
     (case json_loads e raw_image_paths of
        Some (JArr items) \<Rightarrow> map (py_str e) (filter (\<lambda>x. x \<noteq> JNull) items)
      | _ \<Rightarrow> [raw_image_paths])"

text \<open>\<open>s.split(sep, 1)\<close> when \<open>sep\<close> occurs in \<open>s\<close>.\<close>

definition split_once :: "pystr \<Rightarrow> pystr \<Rightarrow> (pystr \<times> pystr) option" where
  "split_once s sep =
     (if pyfind s sep = - 1 then None
      else Some (take (nat (pyfind s sep)) s, drop (nat (pyfind s sep) + length sep) s))"

text \<open>
  The \<open>try\<close> block that reads \<open>document_id\<close>, the page and the image index out of a key
  such as \<open>DOC123/p3_img1.png\<close>; an exception leaves what was assigned before it.
\<close>

definition parseImageKey :: "env \<Rightarrow> pystr \<Rightarrow> pystr option \<times> int option \<times> int option" where
  "parseImageKey e image_key =
     (case split_once image_key [47] of
        None \<Rightarrow> (None, None, None)
      | Some (doc_part, file_part) \<Rightarrow>
          (let base = fst (splitext e file_part)
           in if startswith base (ascii ''p'') then
                (case split_once (drop 1 base) (ascii ''_img'') of
                   None \<Rightarrow> (Some doc_part, None, None)
                 | Some (page_str, img_str) \<Rightarrow>
                     (case py_int e page_str of
                        None \<Rightarrow> (Some doc_part, None, None)
                      | Some page_from_name \<Rightarrow>
                          (Some doc_part, Some page_from_name, py_int e img_str)))
              else (Some doc_part, None, None)))"

definition addImage ::
  "env \<Rightarrow> RawChunk \<Rightarrow> (pystr \<times> ImageInfo) list \<Rightarrow> pystr \<Rightarrow> (pystr \<times> ImageInfo) list" where
  "addImage e c image_map image_key =
     (case parseImageKey e image_key of
        (document_id, page_from_name, image_index) \<Rightarrow>
          (let pg = bm_page (rc_meta c);
               fresh = \<lparr> ii_image_key = image_key, ii_document_id = document_id,
                         ii_page = (case page_from_name of
                                      None \<Rightarrow> Some pg
                                    | Some n \<Rightarrow> if n \<noteq> 0 then Some n else Some pg),
                         ii_image_index = image_index, ii_related_chunk_ids = [] \<rparr>;
               image_map' = (if map_of image_map image_key = None
                             then image_map @ [(image_key, fresh)] else image_map);
               touch = (\<lambda>info.
                  (let info' = (case rc_chunk_id c of
                                  None \<Rightarrow> info
                                | Some cid \<Rightarrow>
                                    if cid \<noteq> []
                                    then info\<lparr>ii_related_chunk_ids :=
                                                List.insert cid (ii_related_chunk_ids info)\<rparr>
                                    else info)
                   in if ii_page info' = None then info'\<lparr>ii_page := Some pg\<rparr> else info'))
           in map (\<lambda>(k, info). if k = image_key then (k, touch info) else (k, info)) image_map'))"

fun collectImageMap ::
  "env \<Rightarrow> RawChunk list \<Rightarrow> (pystr \<times> ImageInfo) list \<Rightarrow> (pystr \<times> ImageInfo) list" where
  "collectImageMap e [] image_map = image_map"
| "collectImageMap e (c # cs) image_map =
     (case bm_image_paths (rc_meta c) of
        None \<Rightarrow> collectImageMap e cs image_map
      | Some raw_image_paths \<Rightarrow>
          if raw_image_paths = [] then collectImageMap e cs image_map
          else collectImageMap e cs (foldl (addImage e c) image_map (imagePaths e raw_image_paths)))"

definition collectImagesFromChunks :: "env \<Rightarrow> RawChunk list \<Rightarrow> Image list" where
  "collectImagesFromChunks e chunks =
     map (\<lambda>(k, info).
            \<lparr> img_image_key = ii_image_key info, img_document_id = ii_document_id info,
              img_page = ii_page info, img_image_index = ii_image_index info,
              img_url = ascii ''/pdf_images/'' @ ii_image_key info,
              img_related_chunk_ids = sort (ii_related_chunk_ids info) \<rparr>)
         (collectImageMap e chunks [])"

subsection \<open>\<open>progressQuery\<close>\<close>

record QueryResult =
  question :: pystr
  normalized_query :: pystr
  answer :: pystr
  supporting_chunks :: "QueryContextChunk list"
  retrieval_confidence :: pystr
  intent_ambiguity_level :: pystr
  need_clarification :: bool
  latency_ms :: real
  images :: "Image list"

text \<open>The sort key of the context handed to the model.\<close>

definition llmKey :: "RawChunk \<Rightarrow> nat \<times> pystr \<times> int" where
  "llmKey c =
     ((if rc_score c > 0 then 0 else 1),
      (case bm_document_id (rc_meta c) of None \<Rightarrow> [] | Some d \<Rightarrow> d),
      (case bm_order_index (rc_meta c) of None \<Rightarrow> 10 ^ 9 | Some i \<Rightarrow> i))"

definition maxScoreOf :: "RawChunk list \<Rightarrow> real" where
  "maxScoreOf chunks = (if chunks = [] then 0 else Max (set (map rc_score chunks)))"

text \<open>
  \<open>progressQuery\<close>, from the trace \<open>tr\<close> of the calls made before it. The \<open>debug\<close> printing
  changes no result and is left out. \<open>Inl\<close> is an exception that reaches the caller.
\<close>

definition progressQuery ::
  "env \<Rightarrow> event list \<Rightarrow> pystr \<Rightarrow> pystr \<Rightarrow> pystr option \<Rightarrow> int
     \<Rightarrow> (pyerr + QueryResult) \<times> event list" where
  "progressQuery e tr chatbot question0 userGroup topK =
     (let t0 = clock e tr;
          q = strip question0
      in if q = [] then (Inl ValueError, tr)
         else
           (case refineQuery e tr q chatbot userGroup of
              (Inl err, tr1) \<Rightarrow> (Inl err, tr1)
            | (Inr refined, tr1) \<Rightarrow>
                (let normalizedQuery = qr_normalized_query refined;
                     safetyMeta = py_or (dict_get (qr_meta refined) (ascii ''safety'')) (JObj [])
                 in case attr_get safetyMeta (ascii ''block_required'') of
                      Inl err \<Rightarrow> (Inl err, tr1)
                    | Inr blockRequired \<Rightarrow>
                        if truthy blockRequired then
                          (Inr \<lparr> question = q, normalized_query = normalizedQuery,
                                 answer = policy_refusal_answer, supporting_chunks = [],
                                 retrieval_confidence = ascii ''blocked'',
                                 intent_ambiguity_level = ascii ''high'',
                                 need_clarification = False,
                                 latency_ms = (clock e tr1 - t0) * 1000,
                                 images = [] \<rparr>, tr1)
                        else
                          (case searchTopKWithNeighbors e tr1 normalizedQuery chatbot userGroup topK 2 of
                             (Inl err, tr2) \<Rightarrow> (Inl err, tr2)
                           | (Inr rawChunks, tr2) \<Rightarrow>
                               (let chunks = sortByScoreDesc rawChunks;
                                    maxScore = maxScoreOf chunks;
                                    retrievalConfidence = estimateRetrievalConfidence maxScore;
                                    intentAmbiguityLevel = analyzeIntentAmbiguity (length chunks)
                                in if confidenceBelowMinimum retrievalConfidence then
                                     (Inr \<lparr> question = q, normalized_query = normalizedQuery,
                                            answer = insufficient_evidence_answer,
                                            supporting_chunks = map toContext chunks,
                                            retrieval_confidence = retrievalConfidence,
                                            intent_ambiguity_level = intentAmbiguityLevel,
                                            need_clarification = False,
                                            latency_ms = (clock e tr2 - t0) * 1000,
                                            images = collectImagesFromChunks e chunks \<rparr>, tr2)
                                   else
                                     (let contextChunksForLLM =
                                            take MAX_CONTEXT_CHUNKS_FOR_LLM (sort_key llmKey chunks);
                                          imgs = collectImagesFromChunks e contextChunksForLLM
                                      in case generateAnswerWithContext e tr2 q normalizedQuery
                                                (qr_keywords refined) (qr_filters refined)
                                                retrievalConfidence intentAmbiguityLevel
                                                contextChunksForLLM of
                                           (Inl err, tr3) \<Rightarrow> (Inl err, tr3)
                                         | (Inr answerResult, tr3) \<Rightarrow>
                                             (Inr \<lparr> question = q,
                                                    normalized_query = normalizedQuery,
                                                    answer = ar_answer answerResult,
                                                    supporting_chunks =
                                                      ar_supporting_chunks answerResult,
                                                    retrieval_confidence =
                                                      rm_retrieval_confidence (ar_meta answerResult),
                                                    intent_ambiguity_level =
                                                      rm_intent_ambiguity_level (ar_meta answerResult),
                                                    need_clarification =
                                                      rm_need_clarification (ar_meta answerResult),
                                                    latency_ms = (clock e tr3 - t0) * 1000,
                                                    images = imgs \<rparr>, tr3)))))))"

section \<open>OCR clean-up (services/llm/firstRefine.py)\<close>

record TextBlock =
  tb_page :: int
  tb_block_id :: pystr
  tb_bbox :: "real \<times> real \<times> real \<times> real"
  tb_text :: pystr
  tb_prob :: "real option"

text \<open>
  \<open>_safeCleanText\<close>: every exception of the call and of the parsing is caught, and the
  original text is returned.
\<close>

definition safeCleanText :: "env \<Rightarrow> event list \<Rightarrow> pystr \<Rightarrow> pystr \<times> event list" where
  "safeCleanText e tr raw_text =
     (if strip raw_text = [] then (raw_text, tr)
      else (case callQwen e tr 0 (json_dumps e (JObj [(ascii ''raw_text'', JStr raw_text)])) of
              (Inl _, tr') \<Rightarrow> (raw_text, tr')
            | (Inr raw_content, tr') \<Rightarrow>
                (case parseJson (json_loads e) raw_content of
                   Inl _ \<Rightarrow> (raw_text, tr')
                 | Inr data \<Rightarrow>
                     (case attr_get_default data (ascii ''cleaned_text'') (JStr []) of
                        Inl _ \<Rightarrow> (raw_text, tr')
                      | Inr v \<Rightarrow>
                          (let cleaned = strip (py_str e v)
                           in if cleaned = [] then (raw_text, tr') else (cleaned, tr'))))))"

fun cleanBlocks :: "env \<Rightarrow> event list \<Rightarrow> TextBlock list \<Rightarrow> TextBlock list \<times> event list" where
  "cleanBlocks e tr [] = ([], tr)"
| "cleanBlocks e tr (block # blocks) =
     (if strip (tb_text block) = [] then
        (case cleanBlocks e tr blocks of (cleaned_blocks, tr') \<Rightarrow> (block # cleaned_blocks, tr'))
      else (case safeCleanText e tr (tb_text block) of
              (cleaned_text, tr1) \<Rightarrow>
                (case cleanBlocks e tr1 blocks of
                   (cleaned_blocks, tr') \<Rightarrow>
                     (block\<lparr>tb_text := cleaned_text\<rparr> # cleaned_blocks, tr'))))"

definition cleanOcrTextBlocks ::
  "env \<Rightarrow> event list \<Rightarrow> TextBlock list \<Rightarrow> TextBlock list \<times> event list" where
  "cleanOcrTextBlocks e tr blocks = (if blocks = [] then (blocks, tr) else cleanBlocks e tr blocks)"

section \<open>Notions of the specification\<close>

text \<open>The payload of the refinement call of task 1, as \<open>refineQuery\<close> builds it.\<close>

definition refinePayload :: "env \<Rightarrow> pystr \<Rightarrow> pystr \<Rightarrow> pystr option \<Rightarrow> pystr" where
  "refinePayload e q chatbot userGroup =
     json_dumps e (JObj [(ascii ''question'', JStr q), (ascii ''chatbot_id'', JStr chatbot),
                         (ascii ''user_group'', (case userGroup of None \<Rightarrow> JNull | Some g \<Rightarrow> JStr g))])"

text \<open>A call to the vector store, as opposed to a call to the LLM server.\<close>

definition store_event :: "event \<Rightarrow> bool" where
  "store_event ev = (case ev of EvLLM _ _ \<Rightarrow> False | _ \<Rightarrow> True)"

text \<open>
  The safety metadata of a refinement result marks \<open>block_required\<close>: \<open>meta["safety"]\<close> is
  a dictionary whose \<open>block_required\<close> is true.
\<close>

definition spec_block_required :: "QueryRefineResult \<Rightarrow> bool" where
  "spec_block_required refined =
     (case dict_get (qr_meta refined) (ascii ''safety'') of
        JObj safety \<Rightarrow> truthy (dict_get safety (ascii ''block_required''))
      | _ \<Rightarrow> False)"


definition content_text :: "pystr option \<Rightarrow> pystr" where
  "content_text c = (case c of None \<Rightarrow> [] | Some s \<Rightarrow> s)"



text \<open>
  The image map of \<open>_collectImagesFromChunks\<close>: every entry is stored under its own key;
  the map has an entry for a key that names a chunk id among its related chunks; and what
  the loop does to the entry of a key once it is in the map.
\<close>

definition keyed :: "(pystr \<times> ImageInfo) list \<Rightarrow> bool" where
  "keyed m = (\<forall>(k, info) \<in> set m. ii_image_key info = k)"

definition image_entry :: "(pystr \<times> ImageInfo) list \<Rightarrow> pystr \<Rightarrow> pystr option \<Rightarrow> bool" where
  "image_entry m k chunk_id =
     (\<exists>info. (k, info) \<in> set m \<and> ii_image_key info = k
        \<and> (\<forall>x. chunk_id = Some x \<and> x \<noteq> [] \<longrightarrow> x \<in> set (ii_related_chunk_ids info)))"

definition touch :: "RawChunk \<Rightarrow> ImageInfo \<Rightarrow> ImageInfo" where
  "touch c info =
     (let info' = (case rc_chunk_id c of
                     None \<Rightarrow> info
                   | Some cid \<Rightarrow>
                       if cid \<noteq> []
                       then info\<lparr>ii_related_chunk_ids := List.insert cid (ii_related_chunk_ids info)\<rparr>
                       else info)
      in if ii_page info' = None then info'\<lparr>ii_page := Some (bm_page (rc_meta c))\<rparr> else info')"





text \<open>
  The filter of the neighbour lookup: a document id and a range of order indices, and
  nothing else. What a call made by \<open>searchTopKWithNeighbors\<close> may be: a similarity query
  with the filter of \<open>_buildWhere\<close>, a lookup with the neighbour filter, or a call that takes
  no filter.
\<close>

fun neighbor_filter :: "where_filter \<Rightarrow> bool" where
  "neighbor_filter (AllOf [DocumentEq d, OrderGte lo, OrderLte hi]) = True"
| "neighbor_filter w = False"

definition search_event :: "pystr \<Rightarrow> pystr option \<Rightarrow> int \<Rightarrow> event \<Rightarrow> bool" where
  "search_event chatbot userGroup topK ev =
     (case ev of
        EvLLM task payload \<Rightarrow> False
      | EvQuery w n \<Rightarrow> w = buildWhere chatbot userGroup \<and> n = topK
      | EvGet w \<Rightarrow> neighbor_filter w
      | _ \<Rightarrow> True)"

section \<open>Concrete inputs\<close>

definition demo_args :: "int \<Rightarrow> int \<Rightarrow> chunk_args" where
  "demo_args m ov = \<lparr> page = 1, chatbotId = ascii ''bot'', documentId = ascii ''doc'',
       filename = None, userGroupTags = [ascii ''default''], maxChars = m, overlap = ov \<rparr>"

text \<open>
  A stand-in for \<open>json.loads\<close> that decodes the one document \<open>{"a":1}\<close>, for evaluating
  \<open>parseJson\<close> on concrete inputs.
\<close>

definition demo_object :: pystr where
  "demo_object = [123, 34, 97, 34, 58, 49, 125]"

definition demo_loads :: "pystr \<Rightarrow> json option" where
  "demo_loads s = (if s = demo_object then Some (JObj [(ascii ''a'', JInt 1)]) else None)"

text \<open>
  A world in which every request to the LLM server has the same outcome, \<open>json.loads\<close> is
  \<open>loads\<close>, the clock counts the calls made, every collection holds \<open>rows\<close>, and every
  record is at distance \<open>dst\<close> from every query.
\<close>

definition demo_env :: "http_outcome \<Rightarrow> (pystr \<Rightarrow> json option) \<Rightarrow> StoreRow list \<Rightarrow> real \<Rightarrow> env" where
  "demo_env outcome loads rows dst =
     \<lparr> llm_post = (\<lambda>tr task payload. outcome), clock = (\<lambda>tr. real (length tr)),
       json_loads = loads, json_dumps = (\<lambda>x. []), py_repr = (\<lambda>x. []),
       py_float = (\<lambda>s. None), py_int = (\<lambda>s. None), py_dict = (\<lambda>x. Inl TypeError),
       splitext = (\<lambda>s. (s, [])), chroma_installed = True,
       collections = (\<lambda>name. Some rows), embed = (\<lambda>s. Some []),
       distance = (\<lambda>vec r. dst), query_raises = (\<lambda>w. False), get_raises = (\<lambda>w. False) \<rparr>"

text \<open>A record of the store: chunk \<open>k\<close> of a document, indexed for a user group.\<close>

definition demo_row :: "pystr \<Rightarrow> pystr \<Rightarrow> int \<Rightarrow> pystr \<Rightarrow> StoreRow" where
  "demo_row cid doc k grp =
     \<lparr> row_id = cid, row_document = ascii ''text'',
       row_meta = \<lparr> sm_chunk_id = Some cid, sm_chatbot_id = Some (ascii ''bot''),
                    sm_document_id = Some doc, sm_manual_id = None, sm_filename = None,
                    sm_page = Some 1, sm_process_tag = None, sm_user_group = Some grp,
                    sm_user_group_tags = None, sm_image_paths = None,
                    sm_order_index = Some k, sm_page_chunk_order = None \<rparr> \<rparr>"

text \<open>A model output that asks for the safety block, and an OCR block.\<close>

definition demo_blocked :: json where
  "demo_blocked =
     JObj [(ascii ''meta'', JObj [(ascii ''safety'', JObj [(ascii ''block_required'', JBool True)])])]"

definition demo_block :: TextBlock where
  "demo_block = \<lparr> tb_page = 1, tb_block_id = ascii ''b0'', tb_bbox = (0, 0, 1, 1),
                  tb_text = [32, 97], tb_prob = None \<rparr>"

text \<open>
  The model output \<open>{"cleaned_text": null}\<close>, and a stand-in for \<open>json.loads\<close> that
  decodes it.
\<close>

definition demo_null_output :: pystr where
  "demo_null_output = [123, 34] @ ascii ''cleaned_text'' @ [34, 58, 32] @ ascii ''null'' @ [125]"

definition demo_null_loads :: "pystr \<Rightarrow> json option" where
  "demo_null_loads s =
     (if s = demo_null_output then Some (JObj [(ascii ''cleaned_text'', JNull)]) else None)"

text \<open>
  A record whose \<open>image_paths\<close> is the JSON list of one image key, and a stand-in for
  \<open>json.loads\<close> that decodes it.
\<close>

definition demo_image_key :: pystr where
  "demo_image_key = ascii ''doc/p1_img1.png''"

definition demo_image_paths :: pystr where
  "demo_image_paths = [91, 34] @ demo_image_key @ [34, 93]"

definition demo_image_loads :: "pystr \<Rightarrow> json option" where
  "demo_image_loads s = (if s = demo_image_paths then Some (JArr [JStr demo_image_key]) else None)"

definition demo_image_row :: StoreRow where
  "demo_image_row =
     \<lparr> row_id = ascii ''c5'', row_document = ascii ''text'',
       row_meta = \<lparr> sm_chunk_id = Some (ascii ''c5''), sm_chatbot_id = Some (ascii ''bot''),
                    sm_document_id = Some (ascii ''doc''), sm_manual_id = None, sm_filename = None,
                    sm_page = Some 1, sm_process_tag = None, sm_user_group = Some (ascii ''staff''),
                    sm_user_group_tags = None, sm_image_paths = Some demo_image_paths,
                    sm_order_index = Some 5, sm_page_chunk_order = None \<rparr> \<rparr>"


section \<open>Verification\<close>

subsection \<open>Chunker\<close>

lemma chunkIteration_cases:
  assumes "0 < maxChars a" "0 \<le> overlap a" "overlap a < maxChars a" "0 \<le> start" "start < int (length txt)"
  shows "(\<exists>cs. chunkIteration a txt start ord chunks = Break cs
            \<and> (int (length txt) \<le> start + maxChars a
               \<or> strip (pyslice txt start (min (start + maxChars a) (int (length txt)))) = []))
       \<or> (\<exists>cs. chunkIteration a txt start ord chunks =
                  Continue (start + (maxChars a - overlap a)) (ord + 1) cs
            \<and> start + maxChars a < int (length txt))"
  using assms by (auto simp: chunkIteration_def Let_def min_def)

lemma chunkWhile_returns:
  assumes "0 < maxChars a" "0 \<le> overlap a" "overlap a < maxChars a"
  shows "0 \<le> start \<Longrightarrow> \<exists>cs. chunkWhile a txt start ord chunks = Some cs"
proof (induction "nat (int (length txt) - start)" arbitrary: start ord chunks rule: less_induct)
  case less
  show ?case
  proof (cases "start < int (length txt)")
    case False
    then show ?thesis by (subst chunkWhile.simps) simp
  next
    case True
    from chunkIteration_cases[OF assms less.prems True, of ord chunks]
    consider cs where "chunkIteration a txt start ord chunks = Break cs"
      | cs where "chunkIteration a txt start ord chunks =
                   Continue (start + (maxChars a - overlap a)) (ord + 1) cs"
      by blast
    then show ?thesis
    proof cases
      case 1
      then show ?thesis using True by (subst chunkWhile.simps) simp
    next
      case c: 2
      have "\<exists>cs'. chunkWhile a txt (start + (maxChars a - overlap a)) (ord + 1) cs = Some cs'"
        using assms less.prems True by (intro less.hyps) auto
      then show ?thesis using True c by (subst chunkWhile.simps) simp
    qed
  qed
qed

lemma chunkPageText_returns:
  assumes "0 < maxChars a" "0 \<le> overlap a" "overlap a < maxChars a"
  shows "\<exists>cs. chunkPageText a pageText = Some cs"
  using chunkWhile_returns[OF assms, of 0] by (simp add: chunkPageText_def Let_def)

lemma chunkPages_returns:
  assumes "0 < maxChars a" "0 \<le> overlap a" "overlap a < maxChars a"
  shows "\<exists>cs. chunkPages a mp ps acc = Some cs"
proof (induction ps arbitrary: acc)
  case Nil
  then show ?case by simp
next
  case (Cons p ps)
  obtain pc where pc: "chunkPageText (a\<lparr>page := p\<rparr>)
      (buildPageText (case map_of mp p of None \<Rightarrow> [] | Some bs \<Rightarrow> bs)) = Some pc"
    using chunkPageText_returns[of "a\<lparr>page := p\<rparr>"] assms by auto
  show ?case using Cons.IH pc by (simp add: Let_def)
qed

text \<open>
  C7 (amended). For \<open>maxChars > 0\<close> and \<open>0 \<le> overlap < maxChars\<close> the chunking loop
  terminates, for every page text, and so does \<open>chunkMergedPages\<close>, which returns a list.
  Each pass of the loop either leaves it (the window has reached the end of the text, or the
  trimmed window is empty) or moves the window start forward by exactly
  \<open>maxChars - overlap\<close>, which is positive.
\<close>

theorem chunk_loop_terminates:
  assumes "0 < maxChars a" "0 \<le> overlap a" "overlap a < maxChars a"
  shows "(\<exists>cs. chunkPageText a pageText = Some cs)
       \<and> (\<exists>cs. chunkMergedPages mp (chatbotId a) (documentId a) (filename a) tags (maxChars a) (overlap a)
                  = Some (Inr cs))
       \<and> (\<forall>txt start ord chunks. 0 \<le> start \<and> start < int (length txt) \<longrightarrow>
            (\<exists>cs. chunkIteration a txt start ord chunks = Break cs
                \<and> (int (length txt) \<le> start + maxChars a
                   \<or> strip (pyslice txt start (min (start + maxChars a) (int (length txt)))) = []))
          \<or> (\<exists>cs. chunkIteration a txt start ord chunks =
                     Continue (start + (maxChars a - overlap a)) (ord + 1) cs
                \<and> start < start + (maxChars a - overlap a)))"
proof (intro conjI allI impI)
  show "\<exists>cs. chunkPageText a pageText = Some cs"
    using assms by (rule chunkPageText_returns)
next
  let ?a = "\<lparr> page = 0, chatbotId = chatbotId a, documentId = documentId a, filename = filename a,
              userGroupTags = (case tags of None \<Rightarrow> [ascii ''default''] | Some [] \<Rightarrow> [ascii ''default'']
                          | Some ts \<Rightarrow> ts), maxChars = maxChars a, overlap = overlap a \<rparr>"
  obtain cs where "chunkPages ?a mp (sort (remdups (map fst mp))) [] = Some cs"
    using chunkPages_returns[of "?a" mp _ "[]"] assms by auto
  then show "\<exists>cs. chunkMergedPages mp (chatbotId a) (documentId a) (filename a) tags (maxChars a) (overlap a)
                  = Some (Inr cs)"
    using assms by (auto simp: chunkMergedPages_def Let_def)
next
  fix t :: pystr and s k :: int and acc :: "TextChunk list"
  assume "0 \<le> s \<and> s < int (length t)"
  then show "(\<exists>cs. chunkIteration a t s k acc = Break cs
                \<and> (int (length t) \<le> s + maxChars a
                   \<or> strip (pyslice t s (min (s + maxChars a) (int (length t)))) = []))
          \<or> (\<exists>cs. chunkIteration a t s k acc =
                     Continue (s + (maxChars a - overlap a)) (k + 1) cs
                \<and> s < s + (maxChars a - overlap a))"
    using chunkIteration_cases[OF assms, of s t k acc] assms by auto
qed

text \<open>
  The witness: the page text \<open>ab cd\<close> with \<open>maxChars = 3\<close> and \<open>overlap = 1\<close>.
\<close>

theorem chunk_loop_terminates_witness:
  "\<exists>cs. chunkPageText (demo_args 3 1) (ascii ''ab cd'') = Some cs"
proof -
  have h: "0 < maxChars (demo_args 3 1)" "0 \<le> overlap (demo_args 3 1)"
    "overlap (demo_args 3 1) < maxChars (demo_args 3 1)"
    by (simp_all add: demo_args_def)
  from chunk_loop_terminates[OF h] show ?thesis by blast
qed

text \<open>
  C7 as stated fails: on the text \<open>a\<close>, five spaces, \<open>b\<close> with \<open>maxChars = 3\<close> and
  \<open>overlap = 0\<close> the first pass continues at \<open>start = 3\<close>, and the second pass leaves the
  loop on an all-blank window whose end \<open>6\<close> is before the end of the text: it neither
  reaches the end of the text nor advances the window.
\<close>

theorem chunk_iteration_counterexample:
  "chunkIteration (demo_args 3 0)
     [97, 32, 32, 32, 32, 32, 98] 0 0 []
     = Continue 3 1 [makeChunk (demo_args 3 0) 0 [97]]
   \<and> chunkIteration (demo_args 3 0)
     [97, 32, 32, 32, 32, 32, 98] 3 1 [makeChunk (demo_args 3 0) 0 [97]]
     = Break [makeChunk (demo_args 3 0) 0 [97]]
   \<and> min (3 + 3) (int (length [97, 32, 32, 32, 32, 32, 98::nat]))
       < int (length [97, 32, 32, 32, 32, 32, 98::nat])"
  by (simp add: chunkIteration_def demo_args_def pyslice_def slice_bound_def strip_def isspace_def)

lemma pyslice_nonneg:
  "0 \<le> i \<Longrightarrow> 0 \<le> j \<Longrightarrow> pyslice s i j = take (nat j - nat i) (drop (nat i) s)"
  by (auto simp: pyslice_def slice_bound_def Let_def min_def)

lemma less_ceiling_div:
  fixes m x d :: int
  assumes "0 < d"
  shows "m < \<lceil>real_of_int x / real_of_int d\<rceil> \<longleftrightarrow> m * d < x"
proof -
  have "m < \<lceil>real_of_int x / real_of_int d\<rceil> \<longleftrightarrow> real_of_int m < real_of_int x / real_of_int d"
    by (rule less_ceiling_iff)
  also have "\<dots> \<longleftrightarrow> real_of_int m * real_of_int d < real_of_int x"
    using assms by (simp add: pos_less_divide_eq)
  also have "\<dots> \<longleftrightarrow> m * d < x"
    by (metis of_int_less_iff of_int_mult)
  finally show ?thesis .
qed

lemma less_spec_count:
  assumes "overlap a < maxChars a"
  shows "k < spec_count a txt \<longleftrightarrow> int k * (maxChars a - overlap a) < int (length txt) - overlap a"
proof -
  have "k < spec_count a txt \<longleftrightarrow>
        int k < \<lceil>real_of_int (int (length txt) - overlap a) / real_of_int (maxChars a - overlap a)\<rceil>"
    unfolding spec_count_def by linarith
  also have "\<dots> \<longleftrightarrow> int k * (maxChars a - overlap a) < int (length txt) - overlap a"
    using assms by (intro less_ceiling_div) simp
  finally show ?thesis .
qed

lemma pyslice_window_nonempty:
  assumes "0 \<le> s" "s < int (length t)" "0 < m"
  shows "pyslice t s (min (s + m) (int (length t))) \<noteq> []"
  using assms by (auto simp: pyslice_nonneg min_def)

lemma spec_window_nonempty:
  assumes "0 < maxChars a" "0 \<le> overlap a" "overlap a < maxChars a" "k < spec_count a txt"
  shows "spec_window a txt k \<noteq> []"
proof -
  let ?s = "int k * (maxChars a - overlap a)"
  have s: "0 \<le> ?s" "?s < int (length txt)"
    using assms less_spec_count[of a k "txt"] by auto
  then show ?thesis
    unfolding spec_window_def using assms(1) by (intro pyslice_window_nonempty)
qed

lemma chunkWhile_trimmed_windows:
  assumes M: "0 < maxChars a" and O: "0 \<le> overlap a" "overlap a < maxChars a"
    and H: "\<forall>j < spec_count a txt. strip (spec_window a txt j) \<noteq> []"
  shows "k < spec_count a txt \<Longrightarrow>
         chunkWhile a txt (int k * (maxChars a - overlap a)) (int k) acc =
           Some (acc @ map (\<lambda>j. makeChunk a (int j) (strip (spec_window a txt j)))
                         [k..<spec_count a txt])"
proof (induction "spec_count a txt - k" arbitrary: k acc rule: less_induct)
  case less
  let ?d = "maxChars a - overlap a"
  let ?s = "int k * ?d"
  let ?L = "int (length txt)"
  let ?N = "spec_count a txt"
  let ?c = "makeChunk a (int k) (strip (spec_window a txt k))"
  have d: "0 < ?d" using O by simp
  have s: "0 \<le> ?s" "?s < ?L - overlap a"
    using less.prems less_spec_count[OF O(2), of k "txt"] d by auto
  have sL: "?s < ?L" using s O by linarith
  have W: "strip (pyslice txt ?s (min (?s + maxChars a) ?L)) = strip (spec_window a txt k)"
    by (simp add: spec_window_def)
  have Wne: "strip (spec_window a txt k) \<noteq> []"
    using H less.prems by simp
  show ?case
  proof (cases "?s + maxChars a < ?L")
    case False
    have "\<not> Suc k < ?N"
      using False less_spec_count[OF O(2), of "Suc k" "txt"] by (simp add: algebra_simps)
    then have N: "?N = Suc k" using less.prems by linarith
    have "chunkIteration a txt ?s (int k) acc = Break (acc @ [?c])"
      using False W Wne by (simp add: chunkIteration_def Let_def min_def)
    then show ?thesis using sL N by (subst chunkWhile.simps) simp
  next
    case True
    have Sk: "Suc k < ?N"
      using True less_spec_count[OF O(2), of "Suc k" "txt"] by (simp add: algebra_simps)
    have next_start: "?s + maxChars a - overlap a = int (Suc k) * ?d"
      by (simp add: algebra_simps)
    have nn: "\<not> ?s + maxChars a - overlap a < 0"
      using s d by linarith
    have it: "chunkIteration a txt ?s (int k) acc =
          Continue (int (Suc k) * ?d) (int (Suc k)) (acc @ [?c])"
      using True W Wne nn next_start by (simp add: chunkIteration_def Let_def min_def)
    have IH: "chunkWhile a txt (int (Suc k) * ?d) (int (Suc k)) (acc @ [?c]) =
          Some ((acc @ [?c]) @
            map (\<lambda>j. makeChunk a (int j) (strip (spec_window a txt j))) [Suc k..<?N])"
      using Sk by (intro less.hyps) auto
    have "[k..<?N] = k # [Suc k..<?N]"
      using less.prems by (simp add: upt_conv_Cons)
    then show ?thesis using sL it IH by (subst chunkWhile.simps) simp
  qed
qed

lemma pyslice_nat:
  "a \<le> b \<Longrightarrow> b \<le> length s \<Longrightarrow> pyslice s (int a) (int b) = take (b - a) (drop a s)"
  by (simp add: pyslice_def slice_bound_def Let_def)

lemma window_overlap_nat:
  fixes s m ov :: nat
  assumes "ov \<le> m" "s + m < length t"
  shows "drop (length (take m (drop s t)) - ov) (take m (drop s t)) =
         take ov (take (min (s + (m - ov) + m) (length t) - (s + (m - ov))) (drop (s + (m - ov)) t))"
proof -
  have l: "length (take m (drop s t)) = m" using assms by simp
  have "drop (m - ov) (take m (drop s t)) = take ov (drop (s + (m - ov)) t)"
    using assms by (simp add: drop_take add.commute)
  moreover have "ov \<le> min (s + (m - ov) + m) (length t) - (s + (m - ov))"
    using assms by (auto simp: min_def)
  ultimately show ?thesis unfolding l by (simp add: min_absorb1)
qed

lemma spec_window_overlap:
  assumes M: "0 < maxChars a" and O: "0 \<le> overlap a" "overlap a < maxChars a"
    and k: "Suc k < spec_count a txt"
  shows "drop (length (spec_window a txt k) - nat (overlap a)) (spec_window a txt k) =
         take (nat (overlap a)) (spec_window a txt (Suc k))"
proof -
  obtain m where m: "maxChars a = int m" using M by (metis nonneg_int_cases less_imp_le)
  obtain ov where ov: "overlap a = int ov" using O by (metis nonneg_int_cases)
  have le: "ov \<le> m" using O m ov by simp
  have d: "maxChars a - overlap a = int (m - ov)" using le m ov by simp
  have d': "int m - int ov = int (m - ov)" using le by simp
  let ?s = "k * (m - ov)"
  have "(Suc k < spec_count a txt) =
        (int (Suc k) * (maxChars a - overlap a) < int (length txt) - overlap a)"
    by (rule less_spec_count[OF O(2)])
  then have "int (Suc k) * int (m - ov) < int (length txt) - int ov"
    using k unfolding d by (simp add: ov)
  moreover have "int (Suc k) * int (m - ov) = int (?s + (m - ov))"
    by (simp add: distrib_right)
  ultimately have "int (?s + (m - ov)) < int (length txt) - int ov"
    by simp
  then have lt: "?s + m < length txt" using le by linarith
  then have lt': "int k * int (m - ov) + int m < int (length txt)"
    by (metis of_nat_add of_nat_mult of_nat_less_iff)
  have s0: "int k * (maxChars a - overlap a) = int ?s"
    unfolding d by simp
  have e0: "int ?s + maxChars a = int (?s + m)"
    unfolding m by simp
  have mn0: "min (int (?s + m)) (int (length txt)) = int (?s + m)"
    using lt by (intro min_absorb1) (simp only: of_nat_le_iff)
  have w0: "spec_window a txt k = take m (drop ?s txt)"
  proof -
    have "spec_window a txt k = pyslice txt (int ?s) (int (?s + m))"
      unfolding spec_window_def s0 e0 mn0 ..
    also have "\<dots> = take ((?s + m) - ?s) (drop ?s txt)"
      using lt by (intro pyslice_nat) auto
    finally show ?thesis by simp
  qed
  have s1: "int (Suc k) * (maxChars a - overlap a) = int (?s + (m - ov))"
    unfolding d by (simp add: distrib_right)
  have e1: "int (?s + (m - ov)) + maxChars a = int (?s + (m - ov) + m)"
    unfolding m by simp
  have mn1: "min (int (?s + (m - ov) + m)) (int (length txt)) = int (min (?s + (m - ov) + m) (length txt))"
    by (rule of_nat_min[symmetric])
  have w1: "spec_window a txt (Suc k) =
      take (min (?s + (m - ov) + m) (length txt) - (?s + (m - ov))) (drop (?s + (m - ov)) txt)"
  proof -
    have "spec_window a txt (Suc k) =
        pyslice txt (int (?s + (m - ov))) (int (min (?s + (m - ov) + m) (length txt)))"
      unfolding spec_window_def s1 e1 mn1 ..
    also have "\<dots> = take (min (?s + (m - ov) + m) (length txt) - (?s + (m - ov))) (drop (?s + (m - ov)) txt)"
      using lt le by (intro pyslice_nat) auto
    finally show ?thesis .
  qed
  show ?thesis unfolding w0 w1 ov using window_overlap_nat[OF le lt] by simp
qed

lemma spec_last_end:
  assumes O: "overlap a < maxChars a" and L: "overlap a < int (length txt)"
  shows "0 < spec_count a txt"
    and "min (int (spec_count a txt - 1) * (maxChars a - overlap a) + maxChars a) (int (length txt))
         = int (length txt)"
proof -
  show pos: "0 < spec_count a txt"
    using less_spec_count[OF O, of 0 "txt"] L by simp
  have "\<not> int (spec_count a txt) * (maxChars a - overlap a) < int (length txt) - overlap a"
    using less_spec_count[OF O, of "spec_count a txt" "txt"] by simp
  moreover have "int (spec_count a txt - 1) = int (spec_count a txt) - 1"
    using pos by simp
  ultimately have "int (length txt) \<le> int (spec_count a txt - 1) * (maxChars a - overlap a) + maxChars a"
    by (simp add: algebra_simps)
  then show "min (int (spec_count a txt - 1) * (maxChars a - overlap a) + maxChars a) (int (length txt))
         = int (length txt)" by simp
qed

lemma strip_before_overlap:
  assumes "v \<noteq> []" "\<not> isspace (hd v)" "\<not> isspace (last v)"
  shows "strip (x @ v) = dropWhile isspace x @ v"
proof -
  obtain h t where v: "v = h # t" using assms(1) by (cases v) auto
  have h: "\<not> isspace h" using assms(2) v by simp
  have l: "dropWhile isspace (x @ v) = dropWhile isspace x @ v"
    unfolding v using h by (rule dropWhile_append3)
  obtain b e where r: "rev v = e # b" using assms(1) by (cases "rev v") auto
  have "e = last v" using r by (metis assms(1) hd_rev list.sel(1))
  then have e: "\<not> isspace e" using assms(3) by simp
  have "dropWhile isspace (rev (dropWhile isspace x @ v)) = rev (dropWhile isspace x @ v)"
    using r e by simp
  then show ?thesis unfolding strip_def l by simp
qed

lemma strip_after_overlap:
  assumes "v \<noteq> []" "\<not> isspace (hd v)" "\<not> isspace (last v)"
  shows "strip (v @ y) = v @ rev (dropWhile isspace (rev y))"
proof -
  obtain h t where v: "v = h # t" using assms(1) by (cases v) auto
  have h: "\<not> isspace h" using assms(2) v by simp
  have l: "dropWhile isspace (v @ y) = v @ y" unfolding v using h by simp
  obtain b e where r: "rev v = e # b" using assms(1) by (cases "rev v") auto
  have "e = last v" using r by (metis assms(1) hd_rev list.sel(1))
  then have e: "\<not> isspace e" using assms(3) by simp
  have "dropWhile isspace (rev y @ rev v) = dropWhile isspace (rev y) @ rev v"
    unfolding r using e by (rule dropWhile_append3)
  then show ?thesis unfolding strip_def l by simp
qed

lemma trimmed_overlap:
  fixes w0 w1 :: pystr
  assumes ov: "drop (length w0 - n) w0 = take n w1" and n: "n \<le> length w0" "n \<le> length w1"
    and ends: "n = 0 \<or> (\<not> isspace (last w0) \<and> \<not> isspace (hd w1))"
  shows "drop (length (strip w0) - n) (strip w0) = take n (strip w1)"
proof (cases "n = 0")
  case True
  then show ?thesis by simp
next
  case False
  let ?v = "take n w1"
  have lv: "length ?v = n" using n by simp
  have vne: "?v \<noteq> []" using False lv by auto
  have w0: "w0 = take (length w0 - n) w0 @ ?v" using ov by (metis append_take_drop_id)
  have w1: "w1 = ?v @ drop n w1" by simp
  have hd: "hd ?v = hd w1" using False by (metis hd_take neq0_conv)
  have "last ?v = last (drop (length w0 - n) w0)" using ov by simp
  also have "\<dots> = last w0" using False n by (intro last_drop) linarith
  finally have last: "last ?v = last w0" .
  have e: "\<not> isspace (hd ?v)" "\<not> isspace (last ?v)" using ends False hd last by auto
  have s0: "strip w0 = dropWhile isspace (take (length w0 - n) w0) @ ?v"
    using strip_before_overlap[OF vne e, of "take (length w0 - n) w0"] w0 by simp
  have s1: "strip w1 = ?v @ rev (dropWhile isspace (rev (drop n w1)))"
    using strip_after_overlap[OF vne e, of "drop n w1"] w1 by simp
  have "drop (length (strip w0) - n) (strip w0) = ?v"
    unfolding s0 using lv by simp
  moreover have "take n (strip w1) = ?v"
    by (subst s1) (simp add: lv n)
  ultimately show ?thesis by simp
qed


lemma length_pyslice_nonneg:
  "0 \<le> i \<Longrightarrow> 0 \<le> j \<Longrightarrow> length (pyslice s i j) = min (nat j - nat i) (length s - nat i)"
  by (simp add: pyslice_nonneg min.commute)

lemma window_length_ge:
  fixes s m ov :: int
  assumes "0 \<le> s" "0 \<le> ov" "ov \<le> m" "s + ov \<le> int (length t)"
  shows "nat ov \<le> length (pyslice t s (min (s + m) (int (length t))))"
proof -
  have "length (pyslice t s (min (s + m) (int (length t))))
        = min (nat (min (s + m) (int (length t))) - nat s) (length t - nat s)"
    using assms by (intro length_pyslice_nonneg) auto
  then show ?thesis using assms by (simp add: min_def) linarith
qed

lemma spec_window_lengths:
  assumes M: "0 < maxChars a" and O: "0 \<le> overlap a" "overlap a < maxChars a"
    and k: "Suc k < spec_count a txt"
  shows "nat (overlap a) \<le> length (spec_window a txt k)"
    and "nat (overlap a) \<le> length (spec_window a txt (Suc k))"
proof -
  let ?d = "maxChars a - overlap a"
  let ?L = "int (length txt)"
  have d: "0 < ?d" using O by simp
  have 1: "int (Suc k) * ?d < ?L - overlap a"
    using k less_spec_count[OF O(2), of "Suc k" "txt"] by simp
  have e: "int (Suc k) * ?d = int k * ?d + ?d" by (simp add: algebra_simps)
  have s0: "0 \<le> int k * ?d" using d by simp
  have s1: "0 \<le> int (Suc k) * ?d" using d by simp
  have l0: "int k * ?d + overlap a \<le> ?L" using 1 e d by linarith
  have l1: "int (Suc k) * ?d + overlap a \<le> ?L" using 1 by linarith
  have le: "overlap a \<le> maxChars a" using O by simp
  show "nat (overlap a) \<le> length (spec_window a txt k)"
    unfolding spec_window_def by (rule window_length_ge[OF s0 O(1) le l0])
  show "nat (overlap a) \<le> length (spec_window a txt (Suc k))"
    unfolding spec_window_def by (rule window_length_ge[OF s1 O(1) le l1])
qed

text \<open>
  C2 (amended). Let \<open>L\<close> be the length of the trimmed page text, \<open>M = maxChars > 0\<close> and
  \<open>0 \<le> O = overlap < M\<close>; window \<open>k\<close> is the \<open>M\<close> characters from \<open>k * (M - O)\<close>, cut at the
  end of the text. If \<open>L > O\<close> and no window is all whitespace, the chunker emits exactly
  \<open>ceil((L - O) / (M - O))\<close> chunks, chunk \<open>k\<close> is the trimmed window \<open>k\<close>, and the last
  window ends at \<open>L\<close>. For consecutive chunks such that \<open>O = 0\<close>, or window \<open>k\<close> does not end
  and window \<open>k + 1\<close> does not start with whitespace, the trailing \<open>O\<close> characters of chunk
  \<open>k\<close> are the leading \<open>O\<close> characters of chunk \<open>k + 1\<close>.
\<close>

theorem chunk_windows_nonblank:
  assumes M: "0 < maxChars a" and O: "0 \<le> overlap a" "overlap a < maxChars a"
    and L: "overlap a < int (length (strip pageText))"
    and H: "\<forall>j < spec_count a (strip pageText). strip (spec_window a (strip pageText) j) \<noteq> []"
  shows "\<exists>cs. chunkPageText a pageText = Some cs
           \<and> length cs = spec_count a (strip pageText)
           \<and> (\<forall>k < length cs. tc_text (cs ! k) = strip (spec_window a (strip pageText) k)
                                  \<and> tc_order (cs ! k) = int k)
           \<and> (\<forall>k. Suc k < length cs
                   \<and> (overlap a = 0
                      \<or> (\<not> isspace (last (spec_window a (strip pageText) k))
                         \<and> \<not> isspace (hd (spec_window a (strip pageText) (Suc k))))) \<longrightarrow>
                  drop (length (tc_text (cs ! k)) - nat (overlap a)) (tc_text (cs ! k))
                    = take (nat (overlap a)) (tc_text (cs ! Suc k)))
           \<and> min (int (length cs - 1) * (maxChars a - overlap a) + maxChars a)
                 (int (length (strip pageText))) = int (length (strip pageText))"
proof -
  let ?t = "strip pageText"
  let ?N = "spec_count a ?t"
  let ?cs = "map (\<lambda>j. makeChunk a (int j) (strip (spec_window a ?t j))) [0..<?N]"
  have pos: "0 < ?N" using spec_last_end(1)[OF O(2) L] .
  have ne: "?t \<noteq> []" using L O by auto
  have "chunkWhile a ?t (int 0 * (maxChars a - overlap a)) (int 0) [] = Some ([] @ ?cs)"
    using pos by (intro chunkWhile_trimmed_windows[OF M O H])
  then have run: "chunkPageText a pageText = Some ?cs"
    using ne by (simp add: chunkPageText_def Let_def)
  have len: "length ?cs = ?N" by simp
  have texts: "\<forall>k < length ?cs. tc_text (?cs ! k) = strip (spec_window a ?t k)
                  \<and> tc_order (?cs ! k) = int k"
    by (simp add: makeChunk_def)
  have ovl: "\<forall>k. Suc k < length ?cs
                   \<and> (overlap a = 0
                      \<or> (\<not> isspace (last (spec_window a ?t k))
                         \<and> \<not> isspace (hd (spec_window a ?t (Suc k))))) \<longrightarrow>
                  drop (length (tc_text (?cs ! k)) - nat (overlap a)) (tc_text (?cs ! k))
                    = take (nat (overlap a)) (tc_text (?cs ! Suc k))"
  proof (intro allI impI)
    fix k
    assume a: "Suc k < length ?cs
                   \<and> (overlap a = 0
                      \<or> (\<not> isspace (last (spec_window a ?t k))
                         \<and> \<not> isspace (hd (spec_window a ?t (Suc k)))))"
    then have k: "Suc k < ?N" by simp
    have e: "nat (overlap a) = 0
             \<or> (\<not> isspace (last (spec_window a ?t k)) \<and> \<not> isspace (hd (spec_window a ?t (Suc k))))"
      using a by auto
    have "drop (length (strip (spec_window a ?t k)) - nat (overlap a)) (strip (spec_window a ?t k))
            = take (nat (overlap a)) (strip (spec_window a ?t (Suc k)))"
      using spec_window_overlap[OF M O k] spec_window_lengths[OF M O k] e
      by (intro trimmed_overlap)
    then show "drop (length (tc_text (?cs ! k)) - nat (overlap a)) (tc_text (?cs ! k))
                    = take (nat (overlap a)) (tc_text (?cs ! Suc k))"
      using k by (simp add: makeChunk_def)
  qed
  have last: "min (int (length ?cs - 1) * (maxChars a - overlap a) + maxChars a)
                 (int (length ?t)) = int (length ?t)"
    using spec_last_end(2)[OF O(2) L] by simp
  show ?thesis using run len texts ovl last by blast
qed

text \<open>
  The witness: with \<open>maxChars = 3\<close> and \<open>overlap = 1\<close>, \<open>ab cd\<close> gives the two chunks \<open>ab\<close>
  and \<open>cd\<close>, and \<open>abcde\<close> gives two chunks that share \<open>c\<close>.
\<close>

theorem chunk_windows_nonblank_witness:
  "(\<exists>cs. chunkPageText (demo_args 3 1) (ascii ''ab cd'') = Some cs \<and> length cs = 2
        \<and> tc_text (cs ! 0) = ascii ''ab'' \<and> tc_text (cs ! 1) = ascii ''cd'')
   \<and> (\<exists>cs. chunkPageText (demo_args 3 1) (ascii ''abcde'') = Some cs \<and> length cs = 2
        \<and> drop (length (tc_text (cs ! 0)) - 1) (tc_text (cs ! 0)) = take 1 (tc_text (cs ! 1)))"
proof -
  let ?a = "demo_args 3 1"
  have two: "j < 2 \<longleftrightarrow> j = 0 \<or> j = 1" for j :: nat
    by auto
  have h: "0 < maxChars ?a" "0 \<le> overlap ?a" "overlap ?a < maxChars ?a"
    by (simp_all add: demo_args_def)
  have ov: "nat (overlap ?a) = 1" by (simp add: demo_args_def)
  have first: "\<exists>cs. chunkPageText ?a (ascii ''ab cd'') = Some cs \<and> length cs = 2
        \<and> tc_text (cs ! 0) = ascii ''ab'' \<and> tc_text (cs ! 1) = ascii ''cd''"
  proof -
    let ?p = "ascii ''ab cd''"
    have st: "strip ?p = ?p"
      by (simp add: strip_def ascii_def isspace_def)
    have n: "spec_count ?a ?p = 2"
      by (simp add: spec_count_def demo_args_def ascii_def)
    have w0: "strip (spec_window ?a ?p 0) = ascii ''ab''"
      by (simp add: spec_window_def demo_args_def ascii_def pyslice_def slice_bound_def
          strip_def isspace_def)
    have w1: "strip (spec_window ?a ?p 1) = ascii ''cd''"
      by (simp add: spec_window_def demo_args_def ascii_def pyslice_def slice_bound_def
          strip_def isspace_def)
    have l: "overlap ?a < int (length (strip ?p))"
      unfolding st by (simp add: demo_args_def ascii_def)
    have H: "\<forall>j < spec_count ?a (strip ?p). strip (spec_window ?a (strip ?p) j) \<noteq> []"
      unfolding st n two using w0 w1 by (auto simp: ascii_def)
    from chunk_windows_nonblank[OF h l H] obtain cs where
      cs: "chunkPageText ?a ?p = Some cs" "length cs = spec_count ?a (strip ?p)"
        "\<forall>k < length cs. tc_text (cs ! k) = strip (spec_window ?a (strip ?p) k)
            \<and> tc_order (cs ! k) = int k"
      by blast
    have "length cs = 2" using cs(2) st n by simp
    moreover have "tc_text (cs ! 0) = ascii ''ab''" "tc_text (cs ! 1) = ascii ''cd''"
      using cs(3) \<open>length cs = 2\<close> st w0 w1 by auto
    ultimately show ?thesis using cs(1) by blast
  qed
  have second: "\<exists>cs. chunkPageText ?a (ascii ''abcde'') = Some cs \<and> length cs = 2
        \<and> drop (length (tc_text (cs ! 0)) - 1) (tc_text (cs ! 0)) = take 1 (tc_text (cs ! 1))"
  proof -
    let ?p = "ascii ''abcde''"
    have st: "strip ?p = ?p"
      by (simp add: strip_def ascii_def isspace_def)
    have n: "spec_count ?a ?p = 2"
      by (simp add: spec_count_def demo_args_def ascii_def)
    have w0: "spec_window ?a ?p 0 = ascii ''abc''"
      by (simp add: spec_window_def demo_args_def ascii_def pyslice_def slice_bound_def)
    have w1: "spec_window ?a ?p 1 = ascii ''cde''"
      by (simp add: spec_window_def demo_args_def ascii_def pyslice_def slice_bound_def)
    have s0: "strip (ascii ''abc'') = ascii ''abc''" "strip (ascii ''cde'') = ascii ''cde''"
      by (simp_all add: strip_def ascii_def isspace_def)
    have l: "overlap ?a < int (length (strip ?p))"
      unfolding st by (simp add: demo_args_def ascii_def)
    have H: "\<forall>j < spec_count ?a (strip ?p). strip (spec_window ?a (strip ?p) j) \<noteq> []"
      unfolding st n two using w0 w1 s0 by (auto simp: ascii_def)
    have e: "\<not> isspace (last (spec_window ?a (strip ?p) 0))
             \<and> \<not> isspace (hd (spec_window ?a (strip ?p) (Suc 0)))"
      unfolding st using w0 w1 by (simp add: ascii_def isspace_def)
    from chunk_windows_nonblank[OF h l H] obtain cs where
      cs: "chunkPageText ?a ?p = Some cs" "length cs = spec_count ?a (strip ?p)"
        "\<forall>k. Suc k < length cs
                   \<and> (overlap ?a = 0
                      \<or> (\<not> isspace (last (spec_window ?a (strip ?p) k))
                         \<and> \<not> isspace (hd (spec_window ?a (strip ?p) (Suc k))))) \<longrightarrow>
                  drop (length (tc_text (cs ! k)) - nat (overlap ?a)) (tc_text (cs ! k))
                    = take (nat (overlap ?a)) (tc_text (cs ! Suc k))"
      by blast
    have len: "length cs = 2" using cs(2) st n by simp
    have "drop (length (tc_text (cs ! 0)) - nat (overlap ?a)) (tc_text (cs ! 0))
                    = take (nat (overlap ?a)) (tc_text (cs ! Suc 0))"
      using cs(3) len e by auto
    then show ?thesis using cs(1) len ov by auto
  qed
  show ?thesis using first second by blast
qed

lemmas chunk_eval = chunkPageText_def chunkWhile.simps chunkIteration_def demo_args_def
  pyslice_def slice_bound_def strip_def isspace_def makeChunk_def ascii_def Let_def

text \<open>
  C2 as stated fails in three ways. The text \<open>a\<close>, five spaces, \<open>b\<close> with \<open>M = 3\<close>, \<open>O = 0\<close>
  gives one chunk where the formula gives \<open>3\<close>, because the loop stops at an all-blank
  window. The text \<open>ab cd\<close> with \<open>M = 3\<close>, \<open>O = 1\<close> gives the trimmed chunks \<open>ab\<close> and
  \<open>cd\<close>, which share no character. The text \<open>ab\<close> with \<open>M = 3\<close>, \<open>O = 2\<close> gives one chunk
  where the formula gives \<open>0\<close>.
\<close>

theorem chunk_count_overlap_counterexample:
  "map_option (map tc_text) (chunkPageText (demo_args 3 0) [97, 32, 32, 32, 32, 32, 98]) = Some [[97]]
   \<and> \<lceil>real_of_int (7 - 0) / real_of_int (3 - 0)\<rceil> = (3::int)
   \<and> map_option (map tc_text) (chunkPageText (demo_args 3 1) (ascii ''ab cd''))
       = Some [ascii ''ab'', ascii ''cd'']
   \<and> drop (length (ascii ''ab'') - 1) (ascii ''ab'') \<noteq> take 1 (ascii ''cd'')
   \<and> map_option (map tc_text) (chunkPageText (demo_args 3 2) (ascii ''ab'')) = Some [ascii ''ab'']
   \<and> \<lceil>real_of_int (2 - 2) / real_of_int (3 - 2)\<rceil> = (0::int)"
proof (intro conjI)
  show "map_option (map tc_text) (chunkPageText (demo_args 3 0) [97, 32, 32, 32, 32, 32, 98]) = Some [[97]]"
    by (simp add: chunk_eval)
  show "map_option (map tc_text) (chunkPageText (demo_args 3 1) (ascii ''ab cd''))
       = Some [ascii ''ab'', ascii ''cd'']"
    by (simp add: chunk_eval)
  show "map_option (map tc_text) (chunkPageText (demo_args 3 2) (ascii ''ab'')) = Some [ascii ''ab'']"
    by (simp add: chunk_eval)
qed (simp_all add: ascii_def)

subsection \<open>\<open>parseJson\<close>\<close>

lemma startswith_char: "startswith s [c] \<longleftrightarrow> s \<noteq> [] \<and> hd s = c"
  by (cases s) (auto simp: startswith_def)

lemma endswith_char: "endswith s [c] \<longleftrightarrow> s \<noteq> [] \<and> last s = c"
proof (cases s rule: rev_cases)
  case Nil
  then show ?thesis by (simp add: endswith_def)
next
  case (snoc ys y)
  then show ?thesis by (auto simp: endswith_def)
qed

lemma length_takeWhile_lt: "x \<in> set xs \<Longrightarrow> \<not> P x \<Longrightarrow> length (takeWhile P xs) < length xs"
  by (induction xs) auto

lemma find_at_char:
  "find_at [c] s i = (if c \<in> set s then int (i + length (takeWhile (\<lambda>x. x \<noteq> c) s)) else - 1)"
  by (induction s arbitrary: i) (auto simp: startswith_def)

lemma rfind_at_char:
  "rfind_at [c] s i b =
     (if c \<in> set s then int (i + (length s - 1 - length (takeWhile (\<lambda>x. x \<noteq> c) (rev s)))) else b)"
proof (induction s arbitrary: i b)
  case Nil
  then show ?case by simp
next
  case (Cons x xs)
  show ?case
  proof (cases "c \<in> set xs")
    case True
    then have "takeWhile (\<lambda>x. x \<noteq> c) (rev xs @ [x]) = takeWhile (\<lambda>x. x \<noteq> c) (rev xs)"
      by (intro takeWhile_append1[of c]) auto
    moreover have "length (takeWhile (\<lambda>x. x \<noteq> c) (rev xs)) < length xs"
      using True length_takeWhile_lt[of c "rev xs" "\<lambda>x. x \<noteq> c"] by simp
    ultimately show ?thesis using True Cons.IH by (auto simp: startswith_def)
  next
    case False
    then have "takeWhile (\<lambda>x. x \<noteq> c) (rev xs @ [x]) = rev xs @ takeWhile (\<lambda>x. x \<noteq> c) [x]"
      by (intro takeWhile_append2) auto
    then show ?thesis using False Cons.IH by (auto simp: startswith_def)
  qed
qed

lemma strip_id:
  assumes "s \<noteq> []" "\<not> isspace (hd s)" "\<not> isspace (last s)"
  shows "strip s = s"
proof -
  have "dropWhile isspace s = s" using assms by (cases s) auto
  moreover have "dropWhile isspace (rev s) = rev s"
    using assms by (cases s rule: rev_cases) auto
  ultimately show ?thesis by (simp add: strip_def)
qed

lemma brace_span_decomp:
  fixes raw :: pystr
  defines "body \<equiv> dropWhile (\<lambda>c. c \<noteq> 123) raw"
  defines "tl' \<equiv> takeWhile (\<lambda>c. c \<noteq> 125) (rev body)"
  shows "body = spec_brace_span raw @ rev tl'"
    and "raw = takeWhile (\<lambda>c. c \<noteq> 123) raw @ spec_brace_span raw @ rev tl'"
proof -
  have "rev (tl' @ dropWhile (\<lambda>c. c \<noteq> 125) (rev body)) = body"
    unfolding tl'_def by simp
  then show b: "body = spec_brace_span raw @ rev tl'"
    unfolding spec_brace_span_def body_def by simp
  have "raw = takeWhile (\<lambda>c. c \<noteq> 123) raw @ body"
    unfolding body_def by simp
  then show "raw = takeWhile (\<lambda>c. c \<noteq> 123) raw @ spec_brace_span raw @ rev tl'"
    using b by simp
qed

lemma brace_span_ends:
  assumes "spec_brace_span raw \<noteq> []"
  shows "hd (spec_brace_span raw) = 123" "last (spec_brace_span raw) = 125"
    "2 \<le> length (spec_brace_span raw)"
proof -
  let ?body = "dropWhile (\<lambda>c. c \<noteq> 123) raw"
  let ?d = "dropWhile (\<lambda>c. c \<noteq> 125) (rev ?body)"
  have d: "?d \<noteq> []" using assms by (simp add: spec_brace_span_def)
  have "\<not> (hd ?d \<noteq> 125)" using d by (rule hd_dropWhile)
  then show l: "last (spec_brace_span raw) = 125"
    using d by (simp add: spec_brace_span_def last_rev)
  have "\<And>xs :: pystr. dropWhile (\<lambda>c. c \<noteq> 125) (rev xs) \<noteq> [] \<Longrightarrow> xs \<noteq> []"
    by auto
  from this[OF d] have b: "?body \<noteq> []" .
  have "\<not> (hd ?body \<noteq> 123)" using b by (rule hd_dropWhile)
  moreover have "hd ?body = hd (spec_brace_span raw)"
    using brace_span_decomp(1)[of raw] assms by (metis hd_append2)
  ultimately show h: "hd (spec_brace_span raw) = 123" by simp
  show "2 \<le> length (spec_brace_span raw)"
  proof (cases "spec_brace_span raw")
    case Nil
    then show ?thesis using assms by simp
  next
    case (Cons x xs)
    then show ?thesis using h l by (cases xs) auto
  qed
qed

lemma brace_span_found:
  assumes "spec_brace_span raw \<noteq> []"
  shows "pyfind raw [123] \<noteq> - 1" "pyrfind raw [125] \<noteq> - 1"
    "pyfind raw [123] < pyrfind raw [125]"
    "pyslice raw (pyfind raw [123]) (pyrfind raw [125] + 1) = spec_brace_span raw"
proof -
  let ?C = "takeWhile (\<lambda>c. c \<noteq> 123) raw"
  let ?S = "spec_brace_span raw"
  let ?body = "dropWhile (\<lambda>c. c \<noteq> 123) raw"
  let ?T = "takeWhile (\<lambda>c. c \<noteq> 125) (rev ?body)"
  have raw: "raw = ?C @ ?S @ rev ?T" by (rule brace_span_decomp(2))
  have len: "length raw = length ?C + length ?S + length ?T"
    using arg_cong[OF raw, of length] by simp
  have h: "hd ?S = 123" and l: "last ?S = 125" and two: "2 \<le> length ?S"
    using brace_span_ends[OF assms] by auto
  have "123 \<in> set ?S" using h assms by (metis hd_in_set)
  then have in1: "123 \<in> set raw" using raw by (metis Un_iff set_append)
  have "125 \<in> set ?S" using l assms by (metis last_in_set)
  then have in2: "125 \<in> set raw" using raw by (metis Un_iff set_append)
  have first: "pyfind raw [123] = int (length ?C)"
    using in1 by (simp add: pyfind_def find_at_char)
  have "rev raw = ?T @ (rev ?S @ rev ?C)"
    using arg_cong[OF raw, of rev] by simp
  moreover have "takeWhile (\<lambda>c. c \<noteq> 125) (?T @ (rev ?S @ rev ?C))
      = ?T @ takeWhile (\<lambda>c. c \<noteq> 125) (rev ?S @ rev ?C)"
    by (intro takeWhile_append2) (auto dest: set_takeWhileD)
  moreover have "takeWhile (\<lambda>c. c \<noteq> 125) (rev ?S @ rev ?C) = []"
    using l assms by (cases ?S rule: rev_cases) auto
  ultimately have tw: "length (takeWhile (\<lambda>c. c \<noteq> 125) (rev raw)) = length ?T"
    by simp
  have last: "pyrfind raw [125] = int (length ?C + length ?S - 1)"
    using in2 tw len by (simp add: pyrfind_def rfind_at_char)
  show "pyfind raw [123] \<noteq> - 1" using first by simp
  show "pyrfind raw [125] \<noteq> - 1" using last by simp
  show "pyfind raw [123] < pyrfind raw [125]" using first last two by simp
  have "pyrfind raw [125] + 1 = int (length ?C + length ?S)"
    using last two by simp
  then have "pyslice raw (pyfind raw [123]) (pyrfind raw [125] + 1)
      = pyslice raw (int (length ?C)) (int (length ?C + length ?S))"
    using first by simp
  also have "\<dots> = take (length ?C + length ?S - length ?C) (drop (length ?C) raw)"
    using len by (intro pyslice_nat) auto
  also have "\<dots> = take (length ?S) (drop (length ?C) (?C @ ?S @ rev ?T))"
    using raw by simp
  also have "\<dots> = ?S" by simp
  finally show "pyslice raw (pyfind raw [123]) (pyrfind raw [125] + 1) = ?S" .
qed

lemma brace_span_missing:
  assumes "spec_brace_span raw = []"
  shows "pyfind raw [123] = - 1 \<or> pyrfind raw [125] = - 1 \<or> pyrfind raw [125] \<le> pyfind raw [123]"
proof (cases "123 \<in> set raw \<and> 125 \<in> set raw")
  case False
  then show ?thesis by (auto simp: pyfind_def pyrfind_def find_at_char rfind_at_char)
next
  case True
  let ?C = "takeWhile (\<lambda>c. c \<noteq> 123) raw"
  let ?body = "dropWhile (\<lambda>c. c \<noteq> 123) raw"
  have nb: "\<forall>x \<in> set (rev ?body). x \<noteq> 125"
    using assms by (simp add: spec_brace_span_def)
  have len: "length raw = length ?C + length ?body"
    by (metis length_append takeWhile_dropWhile_id)
  have "rev raw = rev ?body @ rev ?C"
    by (metis rev_append takeWhile_dropWhile_id)
  moreover have "takeWhile (\<lambda>c. c \<noteq> 125) (rev ?body @ rev ?C)
      = rev ?body @ takeWhile (\<lambda>c. c \<noteq> 125) (rev ?C)"
    using nb by (intro takeWhile_append2) auto
  ultimately have "length ?body \<le> length (takeWhile (\<lambda>c. c \<noteq> 125) (rev raw))"
    by simp
  then have "length raw - 1 - length (takeWhile (\<lambda>c. c \<noteq> 125) (rev raw)) \<le> length ?C"
    using len by linarith
  then have "pyrfind raw [125] \<le> pyfind raw [123]"
    using True by (simp add: pyfind_def pyrfind_def find_at_char rfind_at_char)
  then show ?thesis by simp
qed

lemma rfind_at_ge: "- 1 \<le> b \<Longrightarrow> - 1 \<le> rfind_at sub s i b"
  by (induction s arbitrary: i b) auto

lemma pyrfind_ge: "- 1 \<le> pyrfind s sub"
  by (simp add: pyrfind_def rfind_at_ge)

lemma pyslice_prefix: "0 \<le> j \<Longrightarrow> pyslice s 0 j = take (nat j) s"
  by (cases "nat j \<le> length s") (simp_all add: pyslice_def slice_bound_def Let_def min_def)

lemma cut_fence_eq:
  "(if pyrfind s fence \<noteq> - 1 then strip (pyslice s 0 (pyrfind s fence)) else s) = spec_cut_fence s"
proof (cases "pyrfind s fence = - 1")
  case True
  then show ?thesis by (simp add: spec_cut_fence_def)
next
  case False
  then have "0 \<le> pyrfind s fence" using pyrfind_ge[of s fence] by linarith
  then show ?thesis using False by (simp add: spec_cut_fence_def pyslice_prefix)
qed

lemma not_space_braces: "\<not> isspace 123" "\<not> isspace 125" "\<not> isspace 96"
  by (simp_all add: isspace_def)

lemma attempt3_eq:
  "(let first = pyfind raw [123]; last = pyrfind raw [125]
    in if first = - 1 \<or> last = - 1 \<or> last \<le> first then Inl ValueError
       else let json_str = strip (pyslice raw first (last + 1));
                trailing_backtick = pyrfind json_str fence;
                json_str' = (if trailing_backtick \<noteq> - 1
                             then strip (pyslice json_str 0 trailing_backtick)
                             else json_str)
            in case loads json_str' of Some v \<Rightarrow> Inr v | None \<Rightarrow> Inl ValueError)
   = (case spec_braces loads raw of Some v \<Rightarrow> Inr v | None \<Rightarrow> Inl ValueError)"
proof (cases "spec_brace_span raw = []")
  case True
  then show ?thesis using brace_span_missing[OF True] by (auto simp: spec_braces_def Let_def)
next
  case False
  note f = brace_span_found[OF False]
  have "strip (spec_brace_span raw) = spec_brace_span raw"
    using brace_span_ends[OF False] False by (intro strip_id) (simp_all add: not_space_braces)
  then show ?thesis
    using f False by (simp add: spec_braces_def Let_def cut_fence_eq)
qed

lemma match_here_Nil: "match_here [] = None"
  by (simp add: match_here_def startswith_def fence_def)

lemma parseJson_refines: "parseJson loads raw0 = spec_parseJson loads raw0"
proof (cases "strip raw0 = []")
  case True
  then show ?thesis
    by (simp add: parseJson_def spec_parseJson_def spec_whole_def spec_fenced_def spec_braces_def
        spec_brace_span_def match_here_Nil)
next
  case False
  have a1: "(if startswith (strip raw0) [123] \<and> endswith (strip raw0) [125] then loads (strip raw0) else None)
      = spec_whole loads (strip raw0)"
    using False by (simp add: spec_whole_def startswith_char endswith_char)
  have a2: "(case code_block_search (strip raw0) of Some g \<Rightarrow> loads (strip g) | None \<Rightarrow> None)
      = spec_fenced loads (strip raw0)"
    by (simp add: spec_fenced_def split: option.splits)
  note a3 = attempt3_eq[of "strip raw0" loads, unfolded Let_def]
  show ?thesis
    unfolding parseJson_def spec_parseJson_def Let_def a1 a2 a3
    using False by simp
qed

lemma set_strip: "set (strip s) \<subseteq> set s"
proof -
  have "set (strip s) \<subseteq> set (dropWhile isspace s)"
    unfolding strip_def using set_dropWhileD[of _ isspace "rev (dropWhile isspace s)"] by auto
  also have "\<dots> \<subseteq> set s" using set_dropWhileD[of _ isspace s] by auto
  finally show ?thesis .
qed

lemma startswith_fence_hd: "startswith s fence \<Longrightarrow> s \<noteq> [] \<and> hd s = 96"
  by (cases s) (auto simp: startswith_def fence_def)

lemma block_body_brace: "block_body s = Some g \<Longrightarrow> 123 \<in> set s"
proof -
  assume a: "block_body s = Some g"
  then obtain cs where "dropWhile isspace s = 123 # cs"
    by (auto simp: block_body_def split: list.splits if_splits)
  then have "123 \<in> set (dropWhile isspace s)" by simp
  then show ?thesis using set_dropWhileD by fast
qed

lemma match_here_chars:
  assumes "match_here s = Some g"
  shows "96 \<in> set s" "123 \<in> set s"
proof -
  have f: "startswith s fence" using assms by (auto simp: match_here_def split: if_splits)
  then show "96 \<in> set s" using startswith_fence_hd[OF f] by (metis hd_in_set)
  have "block_body (drop 4 (drop 3 s)) = Some g \<or> block_body (drop 3 s) = Some g"
    using assms f by (auto simp: match_here_def Let_def split: option.splits if_splits)
  then have "123 \<in> set (drop 4 (drop 3 s)) \<or> 123 \<in> set (drop 3 s)"
    using block_body_brace by blast
  then show "123 \<in> set s" by (meson in_set_dropD)
qed

lemma code_block_search_chars:
  "code_block_search s = Some g \<Longrightarrow> 96 \<in> set s \<and> 123 \<in> set s"
proof (induction s)
  case Nil
  then show ?case by (simp add: match_here_Nil)
next
  case (Cons c cs)
  show ?case
  proof (cases "match_here (c # cs)")
    case None
    then show ?thesis using Cons by auto
  next
    case (Some g')
    then show ?thesis using match_here_chars[OF Some] by simp
  qed
qed

lemma rfind_at_no_fence: "96 \<notin> set s \<Longrightarrow> rfind_at fence s i b = b"
proof (induction s arbitrary: i b)
  case Nil
  then show ?case by (simp add: fence_def)
next
  case (Cons c cs)
  then have "\<not> startswith (c # cs) fence" by (auto simp: startswith_def fence_def)
  then show ?case using Cons by simp
qed

lemma cut_fence_id: "96 \<notin> set s \<Longrightarrow> spec_cut_fence s = s"
  by (simp add: spec_cut_fence_def pyrfind_def rfind_at_no_fence)

lemma parseJson_no_brace:
  assumes "123 \<notin> set raw0"
  shows "parseJson loads raw0 = Inl ValueError"
proof -
  have n: "123 \<notin> set (strip raw0)" using assms set_strip by blast
  have "spec_whole loads (strip raw0) = None"
    using n by (auto simp: spec_whole_def) (metis hd_in_set)
  moreover have "spec_fenced loads (strip raw0) = None"
    using n code_block_search_chars[of "strip raw0"]
    by (cases "code_block_search (strip raw0)") (auto simp: spec_fenced_def)
  moreover have "spec_brace_span (strip raw0) = []"
  proof -
    have d: "dropWhile (\<lambda>c. c \<noteq> 123) (strip raw0) = []" using n by auto
    show ?thesis unfolding spec_brace_span_def d by simp
  qed
  ultimately show ?thesis
    by (simp add: parseJson_refines spec_parseJson_def spec_braces_def)
qed

lemma strip_around:
  assumes "obj \<noteq> []" "\<not> isspace (hd obj)" "\<not> isspace (last obj)"
  shows "strip (pre @ obj @ post) = dropWhile isspace pre @ obj @ rev (dropWhile isspace (rev post))"
proof -
  have 1: "dropWhile isspace (pre @ obj @ post) = dropWhile isspace pre @ obj @ post"
    using assms by (cases obj) (auto simp: dropWhile_append)
  have "dropWhile isspace (rev post @ rev obj @ rev (dropWhile isspace pre))
      = dropWhile isspace (rev post) @ rev obj @ rev (dropWhile isspace pre)"
    using assms by (cases obj rule: rev_cases) (auto simp: dropWhile_append)
  then show ?thesis unfolding strip_def 1 by simp
qed

lemma brace_span_object:
  assumes pre: "\<forall>c\<in>set p. c \<noteq> 123" and post: "\<forall>c\<in>set q. c \<noteq> 125"
  shows "spec_brace_span (p @ (123 # mid @ [125]) @ q) = 123 # mid @ [125]"
proof -
  have 1: "dropWhile (\<lambda>c. c \<noteq> 123) (p @ (123 # mid @ [125]) @ q) = (123 # mid @ [125]) @ q"
    using pre by (simp add: dropWhile_append)
  have 2: "dropWhile (\<lambda>c. c \<noteq> 125) (rev q @ 125 # rev mid @ [123]) = 125 # rev mid @ [123]"
    using post by (simp add: dropWhile_append)
  show ?thesis unfolding spec_brace_span_def 1 using 2 by simp
qed

lemma spec_whole_None: "hd r \<noteq> 123 \<or> last r \<noteq> 125 \<Longrightarrow> spec_whole loads r = None"
  by (auto simp: spec_whole_def)

lemma parseJson_prose:
  assumes mid: "96 \<notin> set mid"
    and pre: "\<forall>c\<in>set pre. c \<noteq> 123 \<and> c \<noteq> 125 \<and> c \<noteq> 96"
    and post: "\<forall>c\<in>set post. c \<noteq> 123 \<and> c \<noteq> 125 \<and> c \<noteq> 96"
    and loads: "loads (123 # mid @ [125]) = Some v"
  shows "parseJson loads (pre @ (123 # mid @ [125]) @ post) = Inr v"
proof -
  let ?obj = "123 # mid @ [125]"
  let ?p = "dropWhile isspace pre"
  let ?q = "rev (dropWhile isspace (rev post))"
  let ?raw = "?p @ ?obj @ ?q"
  have raw: "strip (pre @ ?obj @ post) = ?raw"
    by (rule strip_around) (simp_all add: not_space_braces)
  have p: "set ?p \<subseteq> set pre" using set_dropWhileD[of _ isspace pre] by auto
  have q: "set ?q \<subseteq> set post" using set_dropWhileD[of _ isspace "rev post"] by auto
  have nf: "96 \<notin> set ?raw" using p q pre post mid by auto
  have fenced: "spec_fenced loads ?raw = None"
    using nf code_block_search_chars[of ?raw]
    by (cases "code_block_search ?raw") (auto simp: spec_fenced_def)
  have span: "spec_brace_span ?raw = ?obj"
    using p q pre post by (intro brace_span_object) auto
  have braces: "spec_braces loads ?raw = Some v"
    unfolding spec_braces_def span using mid loads by (simp add: cut_fence_id)
  have whole: "spec_whole loads ?raw = None \<or> spec_whole loads ?raw = Some v"
  proof (cases "?p = [] \<and> ?q = []")
    case True
    have "?raw = ?obj" unfolding conjunct1[OF True] conjunct2[OF True] by simp
    then have "spec_whole loads ?raw = spec_whole loads ?obj" by (rule arg_cong)
    also have "\<dots> = Some v" using loads by (simp add: spec_whole_def)
    finally show ?thesis by (rule disjI2)
  next
    case False
    then have "hd ?raw \<noteq> 123 \<or> last ?raw \<noteq> 125"
    proof (cases "?p = []")
      case True
      with False have "?q \<noteq> []" by simp
      then have "last ?raw = last ?q"
        by (metis last_appendR append_is_Nil_conv)
      moreover have "last ?q \<in> set post" using \<open>?q \<noteq> []\<close> q last_in_set by blast
      ultimately show ?thesis using post by auto
    next
      case False
      then have "hd ?raw = hd ?p" by (metis hd_append2)
      moreover have "hd ?p \<in> set pre" using False p hd_in_set by blast
      ultimately show ?thesis using pre by auto
    qed
    then have "spec_whole loads ?raw = None" by (rule spec_whole_None)
    then show ?thesis by (rule disjI1)
  qed
  show ?thesis
    unfolding parseJson_refines spec_parseJson_def raw fenced braces
    using whole by (elim disjE) simp_all
qed

lemma no_fence_after_mid:
  "96 \<notin> set mid \<Longrightarrow> \<not> startswith (dropWhile isspace (mid @ 125 # rest)) fence"
proof (induction mid)
  case Nil
  show ?case using startswith_fence_hd[of "125 # rest"] by (auto simp: not_space_braces)
next
  case (Cons c mid)
  show ?case
  proof (cases "isspace c")
    case True
    then show ?thesis using Cons by simp
  next
    case False
    then show ?thesis using Cons.prems startswith_fence_hd[of "c # mid @ 125 # rest"] by auto
  qed
qed

lemma fence_after_space:
  "\<forall>c\<in>set ws. isspace c \<Longrightarrow> startswith (dropWhile isspace (ws @ fence @ rest)) fence"
  by (simp add: dropWhile_append startswith_def fence_def not_space_braces)

lemma lazy_group_object:
  assumes "96 \<notin> set mid" "\<forall>c\<in>set ws2. isspace c"
  shows "lazy_group acc (mid @ 125 # ws2 @ fence @ rest) = Some (acc @ mid @ [125])"
  using assms(1)
proof (induction mid arbitrary: acc)
  case Nil
  show ?case using fence_after_space[OF assms(2), of rest] by simp
next
  case (Cons c mid)
  have "\<not> startswith (dropWhile isspace (mid @ 125 # ws2 @ fence @ rest)) fence"
    using Cons.prems by (intro no_fence_after_mid) simp
  then show ?case using Cons by simp
qed

lemma block_body_object:
  assumes "96 \<notin> set mid" "\<forall>c\<in>set ws1. isspace c" "\<forall>c\<in>set ws2. isspace c"
  shows "block_body (ws1 @ (123 # mid @ [125]) @ ws2 @ fence @ rest) = Some (123 # mid @ [125])"
proof -
  have "dropWhile isspace (ws1 @ (123 # mid @ [125]) @ ws2 @ fence @ rest)
      = 123 # (mid @ 125 # ws2 @ fence @ rest)"
    using assms(2) by (simp add: dropWhile_append not_space_braces)
  then show ?thesis
    using lazy_group_object[OF assms(1,3), of "[123]" rest] by (simp add: block_body_def)
qed

lemma json_word_prefix: "length tag = 4 \<Longrightarrow> json_word (tag @ s) = json_word tag"
proof -
  assume "length tag = 4"
  then obtain a b c d where "tag = [a, b, c, d]"
    by (cases tag; simp; rename_tac t1; case_tac t1; simp; rename_tac t2; case_tac t2; simp;
        rename_tac t3; case_tac t3; simp)
  then show ?thesis by (simp add: json_word_def)
qed

lemma json_word_hd: "json_word s \<Longrightarrow> s \<noteq> [] \<and> (hd s = 106 \<or> hd s = 74)"
  by (cases s) (auto simp: json_word_def split: list.splits)

lemma match_here_object:
  assumes "96 \<notin> set mid" "\<forall>c\<in>set ws1. isspace c" "\<forall>c\<in>set ws2. isspace c"
    and tag: "tag = [] \<or> (length tag = 4 \<and> json_word tag)"
  shows "match_here (fence @ tag @ ws1 @ (123 # mid @ [125]) @ ws2 @ fence @ rest)
         = Some (123 # mid @ [125])"
proof -
  let ?body = "ws1 @ (123 # mid @ [125]) @ ws2 @ fence @ rest"
  have bb: "block_body ?body = Some (123 # mid @ [125])"
    using assms(1-3) by (rule block_body_object)
  have sw: "startswith (fence @ tag @ ?body) fence" by (simp add: startswith_def)
  have d3: "drop 3 (fence @ tag @ ?body) = tag @ ?body" by (simp add: fence_def)
  from tag show ?thesis
  proof
    assume t: "tag = []"
    have "\<not> json_word ?body"
    proof
      assume "json_word ?body"
      then have h: "hd ?body = 106 \<or> hd ?body = 74" using json_word_hd by blast
      show False
      proof (cases ws1)
        case Nil
        then show ?thesis using h by simp
      next
        case (Cons w ws)
        then have "isspace (hd ?body)" using assms(2) by simp
        then show ?thesis using h by (auto simp: isspace_def)
      qed
    qed
    then show ?thesis using sw d3 bb t by (simp add: match_here_def Let_def)
  next
    assume t: "length tag = 4 \<and> json_word tag"
    then have "json_word (tag @ ?body)" using json_word_prefix[of tag ?body] by simp
    moreover have "drop 4 (tag @ ?body) = ?body" using t by simp
    ultimately show ?thesis using sw d3 bb by (simp add: match_here_def Let_def)
  qed
qed

lemma code_block_search_skip:
  "\<forall>c\<in>set p. c \<noteq> 96 \<Longrightarrow> s \<noteq> [] \<Longrightarrow> match_here s = Some g \<Longrightarrow> code_block_search (p @ s) = Some g"
proof (induction p)
  case Nil
  then show ?case by (cases s) simp_all
next
  case (Cons c p)
  have "match_here (c # p @ s) = None"
    using Cons.prems(1) startswith_fence_hd[of "c # p @ s"] by (auto simp: match_here_def)
  then show ?case using Cons by simp
qed

lemma parseJson_fenced:
  assumes mid: "96 \<notin> set mid"
    and ws: "\<forall>c\<in>set ws1. isspace c" "\<forall>c\<in>set ws2. isspace c"
    and tag: "tag = [] \<or> (length tag = 4 \<and> json_word tag)"
    and pre: "\<forall>c\<in>set pre. c \<noteq> 123 \<and> c \<noteq> 96"
    and loads: "loads (123 # mid @ [125]) = Some v"
  shows "parseJson loads (pre @ (fence @ tag @ ws1 @ (123 # mid @ [125]) @ ws2 @ fence) @ post) = Inr v"
proof -
  let ?obj = "123 # mid @ [125]"
  let ?X = "fence @ tag @ ws1 @ ?obj @ ws2 @ fence"
  let ?p = "dropWhile isspace pre"
  let ?q = "rev (dropWhile isspace (rev post))"
  have X: "?X \<noteq> []" "hd ?X = 96" "last ?X = 96" by (simp_all add: fence_def)
  have raw: "strip (pre @ ?X @ post) = ?p @ ?X @ ?q"
    using X by (intro strip_around) (simp_all add: not_space_braces)
  have p: "set ?p \<subseteq> set pre" using set_dropWhileD[of _ isspace pre] by auto
  have "hd (?p @ ?X @ ?q) \<noteq> 123"
  proof (cases "?p = []")
    case True
    have "hd (?p @ ?X @ ?q) = 96" unfolding True by (simp add: fence_def)
    then show ?thesis by simp
  next
    case False
    then have "hd (?p @ ?X @ ?q) = hd ?p" by (metis hd_append2)
    moreover have "hd ?p \<in> set pre" using False p hd_in_set by blast
    ultimately show ?thesis using pre by auto
  qed
  then have whole: "spec_whole loads (?p @ ?X @ ?q) = None"
    by (intro spec_whole_None) simp
  have m: "match_here (fence @ tag @ ws1 @ ?obj @ ws2 @ fence @ ?q) = Some ?obj"
    using mid ws tag by (rule match_here_object)
  have "code_block_search (?p @ (fence @ tag @ ws1 @ ?obj @ ws2 @ fence @ ?q)) = Some ?obj"
    using p pre m by (intro code_block_search_skip) (auto simp: fence_def)
  then have search: "code_block_search (?p @ ?X @ ?q) = Some ?obj" by simp
  have "strip ?obj = ?obj" by (rule strip_id) (simp_all add: not_space_braces)
  then have fenced: "spec_fenced loads (?p @ ?X @ ?q) = Some v"
    unfolding spec_fenced_def search using loads by simp
  show ?thesis
    unfolding parseJson_refines spec_parseJson_def raw whole fenced by simp
qed

text \<open>
  C6. \<open>parseJson\<close> is the ordered cascade of the three attempts: the whole trimmed string
  when it starts with \<open>{\<close> and ends with \<open>}\<close>, then the first fenced code block, then
  the substring from the first \<open>{\<close> to the last \<open>}\<close> cut before a stray fence. It raises
  exactly when all three fail, and what it raises is \<open>ValueError\<close>. In particular an
  input with no \<open>{\<close> raises; an object surrounded by prose (free of braces and backquotes)
  is returned; and an object in a fenced block, tagged \<open>json\<close> or untagged, after prose free
  of \<open>{\<close> and backquotes, is returned.
\<close>

theorem parseJson_recovery:
  "parseJson loads raw0 =
     (case spec_whole loads (strip raw0) of
        Some v \<Rightarrow> Inr v
      | None \<Rightarrow>
         (case spec_fenced loads (strip raw0) of
            Some v \<Rightarrow> Inr v
          | None \<Rightarrow>
             (case spec_braces loads (strip raw0) of
                Some v \<Rightarrow> Inr v
              | None \<Rightarrow> Inl ValueError)))
   \<and> ((\<exists>e. parseJson loads raw0 = Inl e) \<longleftrightarrow>
        spec_whole loads (strip raw0) = None \<and> spec_fenced loads (strip raw0) = None
        \<and> spec_braces loads (strip raw0) = None)
   \<and> (\<forall>e. parseJson loads raw0 = Inl e \<longrightarrow> e = ValueError)
   \<and> (123 \<notin> set raw0 \<longrightarrow> parseJson loads raw0 = Inl ValueError)
   \<and> (96 \<notin> set mid \<and> (\<forall>c\<in>set pre. c \<noteq> 123 \<and> c \<noteq> 125 \<and> c \<noteq> 96)
        \<and> (\<forall>c\<in>set post. c \<noteq> 123 \<and> c \<noteq> 125 \<and> c \<noteq> 96)
        \<and> loads (123 # mid @ [125]) = Some v
      \<longrightarrow> parseJson loads (pre @ (123 # mid @ [125]) @ post) = Inr v)
   \<and> (96 \<notin> set mid \<and> (\<forall>c\<in>set ws1. isspace c) \<and> (\<forall>c\<in>set ws2. isspace c)
        \<and> (tag = [] \<or> (length tag = 4 \<and> json_word tag))
        \<and> (\<forall>c\<in>set pre'. c \<noteq> 123 \<and> c \<noteq> 96)
        \<and> loads (123 # mid @ [125]) = Some v
      \<longrightarrow> parseJson loads
            (pre' @ (fence @ tag @ ws1 @ (123 # mid @ [125]) @ ws2 @ fence) @ post') = Inr v)"
proof (intro conjI)
  show cascade: "parseJson loads raw0 =
     (case spec_whole loads (strip raw0) of
        Some v \<Rightarrow> Inr v
      | None \<Rightarrow>
         (case spec_fenced loads (strip raw0) of
            Some v \<Rightarrow> Inr v
          | None \<Rightarrow>
             (case spec_braces loads (strip raw0) of
                Some v \<Rightarrow> Inr v
              | None \<Rightarrow> Inl ValueError)))"
    using parseJson_refines[of loads raw0] by (simp add: spec_parseJson_def)
  show "(\<exists>e. parseJson loads raw0 = Inl e) \<longleftrightarrow>
        spec_whole loads (strip raw0) = None \<and> spec_fenced loads (strip raw0) = None
        \<and> spec_braces loads (strip raw0) = None"
    unfolding cascade by (auto split: option.splits)
  show "\<forall>e. parseJson loads raw0 = Inl e \<longrightarrow> e = ValueError"
    unfolding cascade by (auto split: option.splits)
  show "123 \<notin> set raw0 \<longrightarrow> parseJson loads raw0 = Inl ValueError"
    using parseJson_no_brace by blast
  show "96 \<notin> set mid \<and> (\<forall>c\<in>set pre. c \<noteq> 123 \<and> c \<noteq> 125 \<and> c \<noteq> 96)
        \<and> (\<forall>c\<in>set post. c \<noteq> 123 \<and> c \<noteq> 125 \<and> c \<noteq> 96)
        \<and> loads (123 # mid @ [125]) = Some v
      \<longrightarrow> parseJson loads (pre @ (123 # mid @ [125]) @ post) = Inr v"
    using parseJson_prose[of mid pre post loads v] by blast
  show "96 \<notin> set mid \<and> (\<forall>c\<in>set ws1. isspace c) \<and> (\<forall>c\<in>set ws2. isspace c)
        \<and> (tag = [] \<or> (length tag = 4 \<and> json_word tag))
        \<and> (\<forall>c\<in>set pre'. c \<noteq> 123 \<and> c \<noteq> 96)
        \<and> loads (123 # mid @ [125]) = Some v
      \<longrightarrow> parseJson loads
            (pre' @ (fence @ tag @ ws1 @ (123 # mid @ [125]) @ ws2 @ fence) @ post') = Inr v"
    using parseJson_fenced[of mid ws1 ws2 tag pre' loads v post'] by blast
qed

text \<open>
  The witness: with a \<open>loads\<close> that decodes \<open>{"a":1}\<close> only, the three inputs of the
  specification: the object between blanks, the object in a \<open>json\<close> fence between prose,
  and \<open>no json here\<close>.
\<close>

theorem parseJson_recovery_witness:
  "parseJson demo_loads (ascii ''  '' @ demo_object @ ascii ''  '') = Inr (JObj [(ascii ''a'', JInt 1)])
   \<and> parseJson demo_loads
        (ascii ''intro '' @ (fence @ ascii ''json'' @ [10] @ demo_object @ [10] @ fence) @ ascii '' outro'')
       = Inr (JObj [(ascii ''a'', JInt 1)])
   \<and> parseJson demo_loads (ascii ''no json here'') = Inl ValueError"
proof -
  let ?v = "JObj [(ascii ''a'', JInt 1)]"
  let ?mid = "[34, 97, 34, 58, 49] :: pystr"
  have obj: "demo_object = 123 # ?mid @ [125]" by (simp add: demo_object_def)
  have l: "demo_loads (123 # ?mid @ [125]) = Some ?v" by (simp add: demo_loads_def demo_object_def)
  have m: "96 \<notin> set ?mid" by simp
  have sp: "\<forall>c\<in>set (ascii ''  ''). c \<noteq> 123 \<and> c \<noteq> 125 \<and> c \<noteq> 96" by (simp add: ascii_def)
  have a: "parseJson demo_loads (ascii ''  '' @ (123 # ?mid @ [125]) @ ascii ''  '') = Inr ?v"
    using parseJson_recovery[of demo_loads "[]" ?mid "ascii ''  ''" "ascii ''  ''" ?v] m sp l by blast
  have nl: "\<forall>c\<in>set [10]. isspace c" by (simp add: isspace_def)
  have tg: "ascii ''json'' = [] \<or> (length (ascii ''json'') = 4 \<and> json_word (ascii ''json''))"
    by (simp add: ascii_def json_word_def)
  have pr: "\<forall>c\<in>set (ascii ''intro ''). c \<noteq> 123 \<and> c \<noteq> 96" by (simp add: ascii_def)
  have b: "parseJson demo_loads
        (ascii ''intro '' @ (fence @ ascii ''json'' @ [10] @ (123 # ?mid @ [125]) @ [10] @ fence) @ ascii '' outro'')
       = Inr ?v"
    using parseJson_recovery[of demo_loads "[]" ?mid "[]" "[]" ?v "[10]" "[10]" "ascii ''json''"
        "ascii ''intro ''" "ascii '' outro''"] m nl tg pr l by blast
  have nb: "123 \<notin> set (ascii ''no json here'')" by (simp add: ascii_def)
  have c: "parseJson demo_loads (ascii ''no json here'') = Inl ValueError"
    using parseJson_recovery[of demo_loads "ascii ''no json here''"] nb by blast
  show ?thesis using a b c unfolding obj by blast
qed

subsection \<open>The calls a query makes\<close>

lemma callQwen_trace: "snd (callQwen e tr task payload) = tr @ [EvLLM task payload]"
  by (simp add: callQwen_def Let_def split: http_outcome.splits http_body.splits)

lemma refineQuery_trace:
  "snd (refineQuery e tr q chatbot userGroup) = tr @ [EvLLM 1 (refinePayload e q chatbot userGroup)]"
proof -
  obtain r tr' where c: "callQwen e tr 1 (refinePayload e q chatbot userGroup) = (r, tr')"
    by (cases "callQwen e tr 1 (refinePayload e q chatbot userGroup)")
  then have "tr' = tr @ [EvLLM 1 (refinePayload e q chatbot userGroup)]"
    using callQwen_trace[of e tr 1 "refinePayload e q chatbot userGroup"] by simp
  then show ?thesis using c
    by (simp add: refineQuery_def refinePayload_def Let_def split: sum.splits)
qed

lemma tryGetCollection_trace:
  "\<exists>ext. snd (tryGetCollection e tr chatbot) = tr @ ext \<and> list_all store_event ext"
  by (simp add: tryGetCollection_def store_event_def)

lemma searchTopK_trace:
  "\<exists>ext. snd (searchTopK e tr q chatbot userGroup topK) = tr @ ext \<and> list_all store_event ext"
  by (auto simp: searchTopK_def tryGetCollection_def store_event_def Let_def
      split: option.splits sum.splits)

lemma fetchNeighbors_trace:
  "\<exists>ext. snd (snd (fetchNeighbors e rows targets ns seen tr)) = tr @ ext \<and> list_all store_event ext"
proof (induction targets arbitrary: ns seen tr)
  case Nil
  then show ?case by simp
next
  case (Cons t targets)
  obtain d s where t: "t = (d, s)" by (cases t)
  show ?case
  proof (cases "s = []")
    case True
    then show ?thesis using Cons t by simp
  next
    case False
    let ?w = "AllOf [DocumentEq d, OrderGte (Min (set s)), OrderLte (Max (set s))]"
    have step: "\<exists>ns' seen'. fetchNeighbors e rows (t # targets) ns seen tr
        = fetchNeighbors e rows targets ns' seen' (tr @ [EvGet ?w])"
      using False t by (auto simp: Let_def split: sum.splits prod.splits)
    then obtain ns' seen' where eq: "fetchNeighbors e rows (t # targets) ns seen tr
        = fetchNeighbors e rows targets ns' seen' (tr @ [EvGet ?w])" by blast
    obtain ext where "snd (snd (fetchNeighbors e rows targets ns' seen' (tr @ [EvGet ?w])))
        = (tr @ [EvGet ?w]) @ ext" "list_all store_event ext"
      using Cons.IH by blast
    then have "snd (snd (fetchNeighbors e rows (t # targets) ns seen tr)) = tr @ (EvGet ?w # ext)
        \<and> list_all store_event (EvGet ?w # ext)"
      using eq by (simp add: store_event_def)
    then show ?thesis by blast
  qed
qed

lemma searchTopKWithNeighbors_trace:
  "\<exists>ext. snd (searchTopKWithNeighbors e tr q chatbot userGroup topK radius) = tr @ ext
         \<and> list_all store_event ext"
proof -
  obtain r1 tr1 where s: "searchTopK e tr q chatbot userGroup topK = (r1, tr1)"
    by (cases "searchTopK e tr q chatbot userGroup topK")
  obtain ext1 where e1: "tr1 = tr @ ext1" "list_all store_event ext1"
    using searchTopK_trace[of e tr q chatbot userGroup topK] s by auto
  show ?thesis
  proof (cases r1)
    case (Inl err)
    then show ?thesis using s e1 by (auto simp: searchTopKWithNeighbors_def)
  next
    case (Inr base)
    show ?thesis
    proof (cases "base = [] \<or> radius \<le> 0")
      case True
      then show ?thesis using s e1 Inr by (auto simp: searchTopKWithNeighbors_def)
    next
      case False
      obtain r2 tr2 where g: "tryGetCollection e tr1 chatbot = (r2, tr2)"
        by (cases "tryGetCollection e tr1 chatbot")
      obtain ext2 where e2: "tr2 = tr1 @ ext2" "list_all store_event ext2"
        using tryGetCollection_trace[of e tr1 chatbot] g by auto
      show ?thesis
      proof (cases r2)
        case (Inl err)
        then show ?thesis using s e1 e2 g Inr False
          by (auto simp: searchTopKWithNeighbors_def)
      next
        case r2: (Inr coll)
        show ?thesis
        proof (cases coll)
          case None
          then show ?thesis using s e1 e2 g Inr False r2
            by (auto simp: searchTopKWithNeighbors_def)
        next
          case (Some rows)
          obtain targets seen where ct: "collectTargets radius base [] [] = (targets, seen)"
            by (cases "collectTargets radius base [] []")
          obtain ns seen' tr3 where f: "fetchNeighbors e rows targets [] seen tr2 = (ns, seen', tr3)"
            by (cases "fetchNeighbors e rows targets [] seen tr2") auto
          obtain ext3 where e3: "tr3 = tr2 @ ext3" "list_all store_event ext3"
            using fetchNeighbors_trace[of e rows targets "[]" seen tr2] f by auto
          have "snd (searchTopKWithNeighbors e tr q chatbot userGroup topK radius) = tr3"
            using s g Inr False r2 Some ct f by (simp add: searchTopKWithNeighbors_def)
          then show ?thesis using e1 e2 e3 by auto
        qed
      qed
    qed
  qed
qed

lemma progressQuery_blank:
  "strip question0 = [] \<Longrightarrow> progressQuery e tr chatbot question0 userGroup topK = (Inl ValueError, tr)"
  by (simp add: progressQuery_def)

lemma generateAnswer_trace:
  "\<exists>p. snd (generateAnswerWithContext e tr q n ks fs rc ia ctx) = tr @ [EvLLM 2 p]"
proof -
  let ?p = "json_dumps e (JObj [(ascii ''question'', JStr q),
                  (ascii ''normalized_query'', JStr n),
                  (ascii ''keywords'', JArr (map JStr ks)),
                  (ascii ''filters'', JObj fs),
                  (ascii ''retrieval_confidence'', JStr rc),
                  (ascii ''intent_ambiguity_level'', JStr ia),
                  (ascii ''context_chunks'', JArr (map chunkJson ctx))])"
  obtain r tr' where c: "callQwen e tr 2 ?p = (r, tr')" by (cases "callQwen e tr 2 ?p")
  then have "tr' = tr @ [EvLLM 2 ?p]" using callQwen_trace[of e tr 2 ?p] by simp
  then have "snd (generateAnswerWithContext e tr q n ks fs rc ia ctx) = tr @ [EvLLM 2 ?p]"
    using c by (simp add: generateAnswerWithContext_def Let_def split: sum.splits)
  then show ?thesis by blast
qed

lemma progressQuery_trace:
  assumes "strip question0 \<noteq> []"
  shows "\<exists>ext. snd (progressQuery e tr chatbot question0 userGroup topK)
           = tr @ EvLLM 1 (refinePayload e (strip question0) chatbot userGroup) # ext"
proof -
  let ?q = "strip question0"
  let ?ev = "EvLLM 1 (refinePayload e ?q chatbot userGroup)"
  obtain r1 tr1 where r: "refineQuery e tr ?q chatbot userGroup = (r1, tr1)"
    by (cases "refineQuery e tr ?q chatbot userGroup")
  have tr1: "tr1 = tr @ [?ev]" using refineQuery_trace[of e tr ?q chatbot userGroup] r by simp
  show ?thesis
  proof (cases r1)
    case (Inl err)
    then show ?thesis using assms r tr1 by (simp add: progressQuery_def)
  next
    case (Inr refined)
    let ?sm = "attr_get (py_or (dict_get (qr_meta refined) (ascii ''safety'')) (JObj []))
                 (ascii ''block_required'')"
    show ?thesis
    proof (cases ?sm)
      case (Inl err)
      then show ?thesis using assms r tr1 Inr by (simp add: progressQuery_def Let_def)
    next
      case b: (Inr b)
      show ?thesis
      proof (cases "truthy b")
        case True
        then show ?thesis using assms r tr1 Inr b by (simp add: progressQuery_def Let_def)
      next
        case False
        obtain r2 tr2 where s: "searchTopKWithNeighbors e tr1 (qr_normalized_query refined)
            chatbot userGroup topK 2 = (r2, tr2)"
          by (cases "searchTopKWithNeighbors e tr1 (qr_normalized_query refined) chatbot userGroup topK 2")
        obtain ext2 where tr2: "tr2 = tr1 @ ext2"
          using searchTopKWithNeighbors_trace[of e tr1 "qr_normalized_query refined" chatbot
              userGroup topK 2] s by auto
        show ?thesis
        proof (cases r2)
          case (Inl err)
          then show ?thesis using assms r tr1 Inr b False s tr2
            by (simp add: progressQuery_def Let_def)
        next
          case raw: (Inr rawChunks)
          let ?chunks = "sortByScoreDesc rawChunks"
          let ?rc = "estimateRetrievalConfidence (maxScoreOf ?chunks)"
          show ?thesis
          proof (cases "confidenceBelowMinimum ?rc")
            case True
            then show ?thesis using assms r tr1 Inr b False s tr2 raw
              by (simp add: progressQuery_def Let_def)
          next
            case nb: False
            let ?g = "generateAnswerWithContext e tr2 ?q (qr_normalized_query refined)
                (qr_keywords refined) (qr_filters refined) ?rc
                (analyzeIntentAmbiguity (length ?chunks))
                (take MAX_CONTEXT_CHUNKS_FOR_LLM (sort_key llmKey ?chunks))"
            obtain r3 tr3 where g: "?g = (r3, tr3)" by (cases ?g)
            obtain p where tr3: "tr3 = tr2 @ [EvLLM 2 p]"
              using generateAnswer_trace[of e tr2 ?q "qr_normalized_query refined"
                  "qr_keywords refined" "qr_filters refined" ?rc
                  "analyzeIntentAmbiguity (length ?chunks)"
                  "take MAX_CONTEXT_CHUNKS_FOR_LLM (sort_key llmKey ?chunks)"] g by auto
            have "snd (progressQuery e tr chatbot question0 userGroup topK) = tr3"
              using assms r Inr b False s raw nb g
              by (simp add: progressQuery_def Let_def split: sum.splits)
            then show ?thesis using tr1 tr2 tr3 by simp
          qed
        qed
      qed
    qed
  qed
qed

text \<open>
  C10. When the question is empty or blank after trimming, \<open>progressQuery\<close> raises
  \<open>ValueError\<close> and the calls made are those made before it: no refinement, search or LLM
  call has happened. For every other question the first thing it does is the refinement
  call of task 1 on the trimmed question.
\<close>

theorem blank_question_raises_first:
  "(strip question0 = [] \<longrightarrow>
      progressQuery e tr chatbot question0 userGroup topK = (Inl ValueError, tr))
   \<and> (strip question0 \<noteq> [] \<longrightarrow>
        (\<exists>ext. snd (progressQuery e tr chatbot question0 userGroup topK)
           = tr @ EvLLM 1 (refinePayload e (strip question0) chatbot userGroup) # ext))"
  using progressQuery_blank progressQuery_trace by blast

text \<open>The witness: the question of two blanks, and the question \<open>q\<close>.\<close>

theorem blank_question_raises_first_witness:
  "progressQuery (demo_env RequestException (\<lambda>s. None) [] 0) [] (ascii ''bot'') [32, 32] None 5
     = (Inl ValueError, [])
   \<and> (\<exists>ext. snd (progressQuery (demo_env RequestException (\<lambda>s. None) [] 0) []
                   (ascii ''bot'') [113] None 5)
          = EvLLM 1 (refinePayload (demo_env RequestException (\<lambda>s. None) [] 0) [113]
                       (ascii ''bot'') None) # ext)"
proof -
  let ?e = "demo_env RequestException (\<lambda>s. None) [] 0"
  have b: "strip [32, 32] = []" by (simp add: strip_def isspace_def)
  have n: "strip [113] = [113]" by (simp add: strip_def isspace_def)
  from blank_question_raises_first[of "[32, 32]" ?e "[]" "ascii ''bot''" None 5] b
  have 1: "progressQuery ?e [] (ascii ''bot'') [32, 32] None 5 = (Inl ValueError, [])" by blast
  from blank_question_raises_first[of "[113]" ?e "[]" "ascii ''bot''" None 5] n
  have 2: "\<exists>ext. snd (progressQuery ?e [] (ascii ''bot'') [113] None 5)
          = EvLLM 1 (refinePayload ?e [113] (ascii ''bot'') None) # ext" by simp
  show ?thesis using 1 2 by blast
qed

subsection \<open>The safety block\<close>

lemma blocked_attr:
  assumes "spec_block_required refined"
  shows "\<exists>b. attr_get (py_or (dict_get (qr_meta refined) (ascii ''safety'')) (JObj []))
            (ascii ''block_required'') = Inr b \<and> truthy b"
proof -
  from assms obtain safety where s: "dict_get (qr_meta refined) (ascii ''safety'') = JObj safety"
    and t: "truthy (dict_get safety (ascii ''block_required''))"
    by (auto simp: spec_block_required_def split: json.splits)
  have "safety \<noteq> []" using t by (auto simp: dict_get_def)
  then show ?thesis using s t by (simp add: py_or_def attr_get_def)
qed

text \<open>
  C3. When the safety metadata of the refinement result marks \<open>block_required\<close>,
  \<open>progressQuery\<close> returns the fixed policy refusal with no supporting chunks and no
  images, and the only call it has made is the refinement call of task 1: there is no call
  to the vector store and no call of task 2.
\<close>

theorem block_required_short_circuit:
  assumes "strip question0 \<noteq> []"
    and "refineQuery e tr (strip question0) chatbot userGroup = (Inr refined, tr1)"
    and "spec_block_required refined"
  shows "progressQuery e tr chatbot question0 userGroup topK =
           (Inr \<lparr> question = strip question0, normalized_query = qr_normalized_query refined,
                  answer = policy_refusal_answer, supporting_chunks = [],
                  retrieval_confidence = ascii ''blocked'',
                  intent_ambiguity_level = ascii ''high'', need_clarification = False,
                  latency_ms = (clock e tr1 - clock e tr) * 1000, images = [] \<rparr>, tr1)
         \<and> tr1 = tr @ [EvLLM 1 (refinePayload e (strip question0) chatbot userGroup)]"
proof -
  obtain b where b: "attr_get (py_or (dict_get (qr_meta refined) (ascii ''safety'')) (JObj []))
            (ascii ''block_required'') = Inr b" "truthy b"
    using blocked_attr[OF assms(3)] by blast
  have "tr1 = tr @ [EvLLM 1 (refinePayload e (strip question0) chatbot userGroup)]"
    using refineQuery_trace[of e tr "strip question0" chatbot userGroup] assms(2) by simp
  then show ?thesis using assms(1,2) b by (simp add: progressQuery_def Let_def)
qed

text \<open>
  The witness: the model answers \<open>{}\<close>, which decodes to an object whose
  \<open>meta.safety.block_required\<close> is true.
\<close>

lemmas str_eval = strip_def isspace_def startswith_def endswith_def ascii_def

lemma demo_refine_blocked:
  "refineQuery (demo_env (Response 200 (Content (Some [123, 125]))) (\<lambda>s. Some demo_blocked) [] 0)
      [] [113] (ascii ''bot'') None
   = (Inr \<lparr> qr_normalized_query = [113], qr_keywords = [],
            qr_filters = defaultFilters,
            qr_meta = [(ascii ''safety'', JObj [(ascii ''block_required'', JBool True),
                                                  (ascii ''category'', JStr (ascii ''unknown'')),
                                                  (ascii ''reason'', JNull)]),
                       (ascii ''original_query'', JStr [113]),
                       (ascii ''in_scope'', JBool True)] \<rparr>, [EvLLM 1 []])"
  by (simp add: refineQuery_def callQwen_def demo_env_def parseJson_def str_eval
      refineFromData_def demo_blocked_def attr_get_def attr_get_default_def dict_get_def
      dict_get_default_def py_or_def setdefault_def dict_set_def len_or_empty_def py_str_def
      defaultFilters_def Let_def)

theorem block_required_short_circuit_witness:
  "progressQuery (demo_env (Response 200 (Content (Some [123, 125]))) (\<lambda>s. Some demo_blocked) [] 0)
      [] (ascii ''bot'') [32, 113, 32] None 5
   = (Inr \<lparr> question = [113], normalized_query = [113],
            answer = policy_refusal_answer, supporting_chunks = [],
            retrieval_confidence = ascii ''blocked'',
            intent_ambiguity_level = ascii ''high'', need_clarification = False,
            latency_ms = 1000, images = [] \<rparr>, [EvLLM 1 []])"
proof -
  let ?e = "demo_env (Response 200 (Content (Some [123, 125]))) (\<lambda>s. Some demo_blocked) [] 0"
  let ?r = "\<lparr> qr_normalized_query = [113], qr_keywords = [],
            qr_filters = defaultFilters,
            qr_meta = [(ascii ''safety'', JObj [(ascii ''block_required'', JBool True),
                                                  (ascii ''category'', JStr (ascii ''unknown'')),
                                                  (ascii ''reason'', JNull)]),
                       (ascii ''original_query'', JStr [113]),
                       (ascii ''in_scope'', JBool True)] \<rparr>"
  have s: "strip [32, 113, 32] = [113]" by (simp add: str_eval)
  have h1: "strip [32, 113, 32] \<noteq> []" by (simp add: s)
  have h2: "refineQuery ?e [] (strip [32, 113, 32]) (ascii ''bot'') None = (Inr ?r, [EvLLM 1 []])"
    unfolding s by (rule demo_refine_blocked)
  have h3: "spec_block_required ?r"
    by (simp add: spec_block_required_def dict_get_def ascii_def)
  from block_required_short_circuit[OF h1 h2 h3, of 5] show ?thesis
    by (simp add: s demo_env_def)
qed

subsection \<open>Outcomes of the LLM calls\<close>

lemma callQwen_ok:
  "llm_post e tr task p = Response 200 (Content c) \<Longrightarrow>
   callQwen e tr task p = (Inr (case c of None \<Rightarrow> [] | Some s \<Rightarrow> s), tr @ [EvLLM task p])"
  by (simp add: callQwen_def)




lemma refineQuery_fallback:
  assumes "llm_post e tr 1 (refinePayload e q chatbot userGroup) = Response 200 (Content c)"
    and "parseJson (json_loads e) (content_text c) = Inl ValueError"
  shows "refineQuery e tr q chatbot userGroup
           = (Inr \<lparr> qr_normalized_query = q, qr_keywords = [], qr_filters = defaultFilters,
                    qr_meta = [(ascii ''original_query'', JStr q)] \<rparr>,
              tr @ [EvLLM 1 (refinePayload e q chatbot userGroup)])"
  using callQwen_ok[OF assms(1)] assms(2)
  by (simp add: refineQuery_def refinePayload_def content_text_def)




lemma demo_env_sel:
  "llm_post (demo_env outcome loads rows dst) = (\<lambda>tr task payload. outcome)"
  "json_loads (demo_env outcome loads rows dst) = loads"
  "chroma_installed (demo_env outcome loads rows dst)"
  by (simp_all add: demo_env_def)

lemmas search_eval = searchTopKWithNeighbors_def searchTopK_def tryGetCollection_def
  col_query_def col_get_def buildWhere_def demo_env_def demo_row_def baseChunk_def
  neighborChunk_def chunkIdOf_def str_or_def buildMeta_def addTargets_def seeId_def
  collectionName_def COLLECTION_PREFIX_def neighborKey_def Let_def

lemma upto_from_minus_one: "[- 1..2] = [- 1, 0, 1, 2::int]"
  by (simp add: upto.simps)


lemma demo_search_image:
  "searchTopKWithNeighbors (demo_env outcome loads [demo_image_row] dst)
     tr [113] (ascii ''bot'') None 5 2
   = (Inr [baseChunk (demo_image_row, dst)],
      tr @ [EvGetCollection (collectionName (ascii ''bot'')), EvEmbed [113],
            EvQuery (Single (ChatbotEq (ascii ''bot''))) 5,
            EvGetCollection (collectionName (ascii ''bot'')),
            EvGet (AllOf [DocumentEq (ascii ''doc''), OrderGte 3, OrderLte 7])])"
  by (simp add: search_eval demo_image_row_def ascii_def upto_from_minus_one)

subsection \<open>Low retrieval confidence\<close>

lemma map_of_dict_set: "map_of (dict_set d k v) k = Some v"
proof (cases "map_of d k")
  case None
  then show ?thesis by (simp add: dict_set_def map_add_def)
next
  case (Some a)
  have "map_of d k \<noteq> None \<Longrightarrow>
        map_of (map (\<lambda>(k', v'). if k' = k then (k', v) else (k', v')) d) k = Some v"
    by (induction d) (auto split: if_splits)
  then show ?thesis using Some by (simp add: dict_set_def)
qed

lemma dict_get_dict_set: "dict_get (dict_set d k v) k = v"
  by (simp add: dict_get_def map_of_dict_set)

lemma refineFromData_safety:
  assumes "refineFromData e q data = Inr r"
  shows "\<exists>s. dict_get (qr_meta r) (ascii ''safety'') = JObj s"
  using assms unfolding refineFromData_def Let_def
  by (auto split: sum.splits json.splits simp: dict_get_dict_set)

lemma refineQuery_safety:
  assumes "refineQuery e tr q chatbot userGroup = (Inr r, tr1)"
  shows "\<exists>b. attr_get (py_or (dict_get (qr_meta r) (ascii ''safety'')) (JObj []))
            (ascii ''block_required'') = Inr b \<and> (truthy b \<longleftrightarrow> spec_block_required r)"
proof -
  have "dict_get (qr_meta r) (ascii ''safety'') = JNull
        \<or> (\<exists>s. dict_get (qr_meta r) (ascii ''safety'') = JObj s)"
  proof -
    obtain c tr' where c: "callQwen e tr 1 (refinePayload e q chatbot userGroup) = (c, tr')"
      by (cases "callQwen e tr 1 (refinePayload e q chatbot userGroup)")
    show ?thesis
    proof (cases c)
      case (Inl err)
      then show ?thesis using assms c by (simp add: refineQuery_def refinePayload_def)
    next
      case (Inr raw)
      show ?thesis
      proof (cases "parseJson (json_loads e) raw")
        case (Inl err)
        then have "qr_meta r = [(ascii ''original_query'', JStr q)]"
          using assms c Inr by (auto simp: refineQuery_def refinePayload_def)
        then show ?thesis by (simp add: dict_get_def ascii_def)
      next
        case d: (Inr data)
        then have "refineFromData e q data = Inr r"
          using assms c Inr by (auto simp: refineQuery_def refinePayload_def)
        then show ?thesis using refineFromData_safety by blast
      qed
    qed
  qed
  then show ?thesis
  proof
    assume n: "dict_get (qr_meta r) (ascii ''safety'') = JNull"
    then show ?thesis
      by (simp add: py_or_def attr_get_def spec_block_required_def dict_get_def)
  next
    assume "\<exists>s. dict_get (qr_meta r) (ascii ''safety'') = JObj s"
    then obtain s where s: "dict_get (qr_meta r) (ascii ''safety'') = JObj s" by blast
    show ?thesis
    proof (cases "s = []")
      case True
      then show ?thesis using s
        by (simp add: py_or_def attr_get_def spec_block_required_def dict_get_def)
    next
      case False
      then show ?thesis using s
        by (simp add: py_or_def attr_get_def spec_block_required_def)
    qed
  qed
qed

lemma maxScoreOf_sorted: "maxScoreOf (sortByScoreDesc cs) = maxScoreOf cs"
proof -
  have "(sort_key (\<lambda>c. - rc_score c) cs = []) = (cs = [])"
    using length_sort[of "\<lambda>c. - rc_score c" cs] by (metis length_0_conv)
  then show ?thesis by (simp add: maxScoreOf_def sortByScoreDesc_def)
qed

lemma below_low_unknown:
  "m < 40 / 100 \<Longrightarrow> estimateRetrievalConfidence m = ascii ''unknown''"
  by (simp add: estimateRetrievalConfidence_def)

lemma unknown_below_minimum: "confidenceBelowMinimum (ascii ''unknown'')"
  by (simp add: confidenceBelowMinimum_def CONFIDENCE_ORDER_def MIN_CONFIDENCE_LEVEL_FOR_ANSWER_def
      ascii_def)

lemma progressQuery_low_confidence:
  assumes "strip question0 \<noteq> []"
    and "refineQuery e tr (strip question0) chatbot userGroup = (Inr refined, tr1)"
    and "\<not> spec_block_required refined"
    and "searchTopKWithNeighbors e tr1 (qr_normalized_query refined) chatbot userGroup topK 2
           = (Inr rawChunks, tr2)"
    and "maxScoreOf rawChunks < 40 / 100"
  shows "progressQuery e tr chatbot question0 userGroup topK =
           (Inr \<lparr> question = strip question0, normalized_query = qr_normalized_query refined,
                  answer = insufficient_evidence_answer,
                  supporting_chunks = map toContext (sortByScoreDesc rawChunks),
                  retrieval_confidence = ascii ''unknown'',
                  intent_ambiguity_level = analyzeIntentAmbiguity (length rawChunks),
                  need_clarification = False,
                  latency_ms = (clock e tr2 - clock e tr) * 1000,
                  images = collectImagesFromChunks e (sortByScoreDesc rawChunks) \<rparr>, tr2)
         \<and> length (sortByScoreDesc rawChunks) = length rawChunks
         \<and> set (sortByScoreDesc rawChunks) = set rawChunks
         \<and> (\<exists>ext. tr2 = tr @ EvLLM 1 (refinePayload e (strip question0) chatbot userGroup) # ext
                \<and> list_all store_event ext)"
proof -
  obtain b where b: "attr_get (py_or (dict_get (qr_meta refined) (ascii ''safety'')) (JObj []))
            (ascii ''block_required'') = Inr b" "\<not> truthy b"
    using refineQuery_safety[OF assms(2)] assms(3) by blast
  have c: "estimateRetrievalConfidence (maxScoreOf (sortByScoreDesc rawChunks)) = ascii ''unknown''"
    using assms(5) by (simp add: maxScoreOf_sorted below_low_unknown)
  have len: "length (sortByScoreDesc rawChunks) = length rawChunks"
    and st: "set (sortByScoreDesc rawChunks) = set rawChunks"
    by (simp_all add: sortByScoreDesc_def)
  have res: "progressQuery e tr chatbot question0 userGroup topK =
           (Inr \<lparr> question = strip question0, normalized_query = qr_normalized_query refined,
                  answer = insufficient_evidence_answer,
                  supporting_chunks = map toContext (sortByScoreDesc rawChunks),
                  retrieval_confidence = ascii ''unknown'',
                  intent_ambiguity_level = analyzeIntentAmbiguity (length rawChunks),
                  need_clarification = False,
                  latency_ms = (clock e tr2 - clock e tr) * 1000,
                  images = collectImagesFromChunks e (sortByScoreDesc rawChunks) \<rparr>, tr2)"
    using assms(1,2,4) b c unknown_below_minimum len
    by (simp add: progressQuery_def Let_def)
  have tr1: "tr1 = tr @ [EvLLM 1 (refinePayload e (strip question0) chatbot userGroup)]"
    using refineQuery_trace[of e tr "strip question0" chatbot userGroup] assms(2) by simp
  obtain ext where "tr2 = tr1 @ ext" "list_all store_event ext"
    using searchTopKWithNeighbors_trace[of e tr1 "qr_normalized_query refined" chatbot
        userGroup topK 2] assms(4) by auto
  then have "\<exists>ext. tr2 = tr @ EvLLM 1 (refinePayload e (strip question0) chatbot userGroup) # ext
                \<and> list_all store_event ext"
    using tr1 by simp
  then show ?thesis using res len st by blast
qed

text \<open>
  The images of \<open>_collectImagesFromChunks\<close>: every key listed by a chunk has an image,
  with its URL and the chunk among its related chunks.
\<close>

lemma touch_key: "ii_image_key (touch c info) = ii_image_key info"
  by (simp add: touch_def Let_def split: option.splits)

lemma touch_related: "set (ii_related_chunk_ids info) \<subseteq> set (ii_related_chunk_ids (touch c info))"
  by (auto simp: touch_def Let_def split: option.splits)

lemma touch_adds:
  "rc_chunk_id c = Some x \<Longrightarrow> x \<noteq> [] \<Longrightarrow> x \<in> set (ii_related_chunk_ids (touch c info))"
  by (simp add: touch_def Let_def)

lemma addImage_touch:
  "\<exists>fresh. ii_image_key fresh = k \<and>
     addImage e c m k =
       map (\<lambda>(k', info). if k' = k then (k', touch c info) else (k', info))
         (if map_of m k = None then m @ [(k, fresh)] else m)"
proof -
  obtain d p i where pk: "parseImageKey e k = (d, p, i)" by (cases "parseImageKey e k")
  let ?fresh = "\<lparr> ii_image_key = k, ii_document_id = d,
                   ii_page = (case p of
                                None \<Rightarrow> Some (bm_page (rc_meta c))
                              | Some n \<Rightarrow> if n \<noteq> 0 then Some n else Some (bm_page (rc_meta c))),
                   ii_image_index = i, ii_related_chunk_ids = [] \<rparr>"
  have "addImage e c m k =
       map (\<lambda>(k', info). if k' = k then (k', touch c info) else (k', info))
         (if map_of m k = None then m @ [(k, ?fresh)] else m)"
    unfolding addImage_def touch_def Let_def pk prod.case by (rule refl)
  moreover have "ii_image_key ?fresh = k" by simp
  ultimately show ?thesis by blast
qed

lemma keyed_addImage: "keyed m \<Longrightarrow> keyed (addImage e c m k)"
proof -
  assume km: "keyed m"
  obtain fresh where f: "ii_image_key fresh = k"
    and a: "addImage e c m k =
       map (\<lambda>(k', info). if k' = k then (k', touch c info) else (k', info))
         (if map_of m k = None then m @ [(k, fresh)] else m)"
    using addImage_touch by blast
  show ?thesis unfolding a using km f by (auto simp: keyed_def touch_key split: if_splits)
qed

lemma entry_addImage_new:
  assumes "keyed m"
  shows "image_entry (addImage e c m k) k (rc_chunk_id c)"
proof -
  obtain fresh where f: "ii_image_key fresh = k"
    and a: "addImage e c m k =
       map (\<lambda>(k', info). if k' = k then (k', touch c info) else (k', info))
         (if map_of m k = None then m @ [(k, fresh)] else m)"
    using addImage_touch by blast
  let ?m' = "if map_of m k = None then m @ [(k, fresh)] else m"
  have "\<exists>info. (k, info) \<in> set ?m' \<and> ii_image_key info = k"
  proof (cases "map_of m k")
    case None
    then show ?thesis using f by auto
  next
    case (Some info)
    then have "(k, info) \<in> set m" by (rule map_of_SomeD)
    then show ?thesis using assms Some by (auto simp: keyed_def)
  qed
  then obtain info where i: "(k, info) \<in> set ?m'" "ii_image_key info = k" by blast
  have "(k, touch c info) \<in> set (addImage e c m k)"
    unfolding a using i(1) by (force simp: image_iff)
  then show ?thesis using i(2) touch_key touch_adds unfolding image_entry_def by blast
qed

lemma entry_addImage_mono:
  assumes "image_entry m k' cid"
  shows "image_entry (addImage e c m k) k' cid"
proof -
  obtain fresh where a: "addImage e c m k =
       map (\<lambda>(k', info). if k' = k then (k', touch c info) else (k', info))
         (if map_of m k = None then m @ [(k, fresh)] else m)"
    using addImage_touch by blast
  obtain info where i: "(k', info) \<in> set m" "ii_image_key info = k'"
    "\<forall>x. cid = Some x \<and> x \<noteq> [] \<longrightarrow> x \<in> set (ii_related_chunk_ids info)"
    using assms unfolding image_entry_def by blast
  show ?thesis
  proof (cases "k' = k")
    case True
    have "(k', touch c info) \<in> set (addImage e c m k)"
      unfolding a using i(1) True by (force simp: image_iff)
    moreover have "\<forall>x. cid = Some x \<and> x \<noteq> [] \<longrightarrow> x \<in> set (ii_related_chunk_ids (touch c info))"
      using i(3) touch_related by blast
    ultimately show ?thesis using i(2) touch_key unfolding image_entry_def by blast
  next
    case False
    have "(k', info) \<in> set (addImage e c m k)"
      unfolding a using i(1) False by (force simp: image_iff)
    then show ?thesis using i(2,3) unfolding image_entry_def by blast
  qed
qed

lemma keyed_foldl: "keyed m \<Longrightarrow> keyed (foldl (addImage e c) m ks)"
  by (induction ks arbitrary: m) (simp_all add: keyed_addImage)

lemma entry_foldl_mono:
  "image_entry m k' cid \<Longrightarrow> image_entry (foldl (addImage e c) m ks) k' cid"
  by (induction ks arbitrary: m) (simp_all add: entry_addImage_mono)

lemma entry_foldl_new:
  "keyed m \<Longrightarrow> k \<in> set ks \<Longrightarrow> image_entry (foldl (addImage e c) m ks) k (rc_chunk_id c)"
proof (induction ks arbitrary: m)
  case Nil
  then show ?case by simp
next
  case (Cons x ks)
  show ?case
  proof (cases "k = x")
    case True
    have "image_entry (addImage e c m x) x (rc_chunk_id c)"
      using Cons.prems(1) by (rule entry_addImage_new)
    then show ?thesis using True entry_foldl_mono by simp
  next
    case False
    then have "k \<in> set ks" using Cons.prems(2) by simp
    then show ?thesis using Cons.IH[OF keyed_addImage[OF Cons.prems(1)]] by simp
  qed
qed

lemma keyed_collect: "keyed m \<Longrightarrow> keyed (collectImageMap e cs m)"
  by (induction cs arbitrary: m) (auto simp: keyed_foldl split: option.splits)

lemma entry_collect_mono:
  "image_entry m k cid \<Longrightarrow> image_entry (collectImageMap e cs m) k cid"
  by (induction cs arbitrary: m) (auto simp: entry_foldl_mono split: option.splits)

lemma entry_collect_new:
  assumes "keyed m" "c \<in> set cs" "bm_image_paths (rc_meta c) = Some raw" "raw \<noteq> []"
    "k \<in> set (imagePaths e raw)"
  shows "image_entry (collectImageMap e cs m) k (rc_chunk_id c)"
  using assms(1,2)
proof (induction cs arbitrary: m)
  case Nil
  then show ?case by simp
next
  case (Cons x cs)
  show ?case
  proof (cases "c = x")
    case True
    have "image_entry (foldl (addImage e x) m (imagePaths e raw)) k (rc_chunk_id x)"
      using entry_foldl_new[OF Cons.prems(1) assms(5)] .
    then show ?thesis using True assms(3,4) entry_collect_mono by simp
  next
    case False
    then have in_cs: "c \<in> set cs" using Cons.prems(2) by simp
    show ?thesis
    proof (cases "bm_image_paths (rc_meta x)")
      case None
      then show ?thesis using Cons.IH[OF Cons.prems(1) in_cs] by simp
    next
      case (Some r)
      show ?thesis
      proof (cases "r = []")
        case True
        then show ?thesis using Some Cons.IH[OF Cons.prems(1) in_cs] by simp
      next
        case False
        have "keyed (foldl (addImage e x) m (imagePaths e r))"
          using Cons.prems(1) by (rule keyed_foldl)
        then show ?thesis using Some False Cons.IH[OF _ in_cs] by simp
      qed
    qed
  qed
qed

lemma imagePaths_json_list:
  "json_loads e raw = Some (JArr (map JStr keys)) \<Longrightarrow> imagePaths e raw = keys"
  by (simp add: imagePaths_def py_str_def comp_def filter_map)

lemma images_found:
  assumes "c \<in> set cs" "bm_image_paths (rc_meta c) = Some raw" "raw \<noteq> []"
    "json_loads e raw = Some (JArr (map JStr keys))" "k \<in> set keys"
  shows "\<exists>i \<in> set (collectImagesFromChunks e cs).
           img_image_key i = k \<and> img_url i = ascii ''/pdf_images/'' @ k
           \<and> (\<forall>x. rc_chunk_id c = Some x \<and> x \<noteq> [] \<longrightarrow> x \<in> set (img_related_chunk_ids i))"
proof -
  have "keyed []" by (simp add: keyed_def)
  moreover have "k \<in> set (imagePaths e raw)" using assms(4,5) by (simp add: imagePaths_json_list)
  ultimately have "image_entry (collectImageMap e cs []) k (rc_chunk_id c)"
    using assms(1,2,3) by (intro entry_collect_new)
  then obtain info where i: "(k, info) \<in> set (collectImageMap e cs [])" "ii_image_key info = k"
    "\<forall>x. rc_chunk_id c = Some x \<and> x \<noteq> [] \<longrightarrow> x \<in> set (ii_related_chunk_ids info)"
    unfolding image_entry_def by blast
  let ?img = "\<lparr> img_image_key = ii_image_key info, img_document_id = ii_document_id info,
              img_page = ii_page info, img_image_index = ii_image_index info,
              img_url = ascii ''/pdf_images/'' @ ii_image_key info,
              img_related_chunk_ids = sort (ii_related_chunk_ids info) \<rparr>"
  have "?img \<in> set (collectImagesFromChunks e cs)"
    unfolding collectImagesFromChunks_def using i(1) by (force simp: image_iff)
  then show ?thesis using i(2,3) by (intro bexI[of _ ?img]) auto
qed

lemma maxScoreOf_less:
  assumes "\<forall>c \<in> set cs. rc_score c < x" "0 < x"
  shows "maxScoreOf cs < x"
proof (cases "cs = []")
  case True
  then show ?thesis using assms(2) by (simp add: maxScoreOf_def)
next
  case False
  then have "Max (set (map rc_score cs)) < x"
    using assms(1) by (subst Max_less_iff) auto
  then show ?thesis using False by (simp add: maxScoreOf_def)
qed

text \<open>
  C4. When the search has run and every retrieved chunk has a score below \<open>0.40\<close> (so
  that the largest score, \<open>0.0\<close> when there is no chunk, is below the threshold of \<open>low\<close>),
  \<open>progressQuery\<close> returns the fixed "insufficient evidence" answer with the confidence
  \<open>unknown\<close>. Its supporting chunks are the retrieved chunks, each with its chunk id, text,
  score and metadata, in descending score order. For every retrieved chunk whose
  \<open>image_paths\<close> is the JSON list of some keys, every one of the keys has an image in the
  result, with the URL \<open>/pdf_images/\<close> followed by the key and the chunk's id among its
  related chunks. After the refinement call only the vector store has been called: there
  is no call of task 2.
\<close>

theorem low_confidence_short_circuit:
  assumes "strip question0 \<noteq> []"
    and "refineQuery e tr (strip question0) chatbot userGroup = (Inr refined, tr1)"
    and "\<not> spec_block_required refined"
    and "searchTopKWithNeighbors e tr1 (qr_normalized_query refined) chatbot userGroup topK 2
           = (Inr rawChunks, tr2)"
    and "\<forall>c \<in> set rawChunks. rc_score c < 40 / 100"
  shows "(\<exists>res. progressQuery e tr chatbot question0 userGroup topK = (Inr res, tr2)
            \<and> question res = strip question0
            \<and> normalized_query res = qr_normalized_query refined
            \<and> answer res = insufficient_evidence_answer
            \<and> supporting_chunks res =
                 map (\<lambda>c. \<lparr> qc_chunk_id = (case rc_chunk_id c of None \<Rightarrow> JNull | Some t \<Rightarrow> JStr t),
                             qc_text = rc_text c, qc_score = rc_score c,
                             qc_meta = StoreDict (rc_meta c) \<rparr>)
                   (sort_key (\<lambda>c. - rc_score c) rawChunks)
            \<and> retrieval_confidence res = ascii ''unknown''
            \<and> need_clarification res = False
            \<and> (\<forall>c \<in> set rawChunks. \<forall>raw keys.
                  bm_image_paths (rc_meta c) = Some raw \<and> raw \<noteq> []
                  \<and> json_loads e raw = Some (JArr (map JStr keys)) \<longrightarrow>
                  (\<forall>k \<in> set keys. \<exists>i \<in> set (images res).
                      img_image_key i = k \<and> img_url i = ascii ''/pdf_images/'' @ k
                      \<and> (\<forall>x. rc_chunk_id c = Some x \<and> x \<noteq> [] \<longrightarrow>
                             x \<in> set (img_related_chunk_ids i)))))
         \<and> (\<exists>ext. tr2 = tr @ EvLLM 1 (refinePayload e (strip question0) chatbot userGroup) # ext
                \<and> list_all store_event ext)"
proof -
  have m: "maxScoreOf rawChunks < 40 / 100"
    using assms(5) by (intro maxScoreOf_less) auto
  note old = progressQuery_low_confidence[OF assms(1-4) m]
  let ?res = "\<lparr> question = strip question0, normalized_query = qr_normalized_query refined,
                  answer = insufficient_evidence_answer,
                  supporting_chunks = map toContext (sortByScoreDesc rawChunks),
                  retrieval_confidence = ascii ''unknown'',
                  intent_ambiguity_level = analyzeIntentAmbiguity (length rawChunks),
                  need_clarification = False,
                  latency_ms = (clock e tr2 - clock e tr) * 1000,
                  images = collectImagesFromChunks e (sortByScoreDesc rawChunks) \<rparr>"
  have run: "progressQuery e tr chatbot question0 userGroup topK = (Inr ?res, tr2)"
    using old by blast
  have sup: "supporting_chunks ?res =
                 map (\<lambda>c. \<lparr> qc_chunk_id = (case rc_chunk_id c of None \<Rightarrow> JNull | Some t \<Rightarrow> JStr t),
                             qc_text = rc_text c, qc_score = rc_score c,
                             qc_meta = StoreDict (rc_meta c) \<rparr>)
                   (sort_key (\<lambda>c. - rc_score c) rawChunks)"
    by (simp add: toContext_def opt_json_def sortByScoreDesc_def)
  have img: "\<forall>c \<in> set rawChunks. \<forall>raw keys.
                  bm_image_paths (rc_meta c) = Some raw \<and> raw \<noteq> []
                  \<and> json_loads e raw = Some (JArr (map JStr keys)) \<longrightarrow>
                  (\<forall>k \<in> set keys. \<exists>i \<in> set (images ?res).
                      img_image_key i = k \<and> img_url i = ascii ''/pdf_images/'' @ k
                      \<and> (\<forall>x. rc_chunk_id c = Some x \<and> x \<noteq> [] \<longrightarrow>
                             x \<in> set (img_related_chunk_ids i)))"
  proof (intro ballI allI impI)
    fix c raw keys k
    assume c: "c \<in> set rawChunks"
      and a: "bm_image_paths (rc_meta c) = Some raw \<and> raw \<noteq> []
                  \<and> json_loads e raw = Some (JArr (map JStr keys))"
      and k: "k \<in> set keys"
    have "c \<in> set (sortByScoreDesc rawChunks)" using c by (simp add: sortByScoreDesc_def)
    then have "\<exists>i \<in> set (collectImagesFromChunks e (sortByScoreDesc rawChunks)).
           img_image_key i = k \<and> img_url i = ascii ''/pdf_images/'' @ k
           \<and> (\<forall>x. rc_chunk_id c = Some x \<and> x \<noteq> [] \<longrightarrow> x \<in> set (img_related_chunk_ids i))"
      using a k by (intro images_found[of c _ raw e keys k]) auto
    then show "\<exists>i \<in> set (images ?res).
                      img_image_key i = k \<and> img_url i = ascii ''/pdf_images/'' @ k
                      \<and> (\<forall>x. rc_chunk_id c = Some x \<and> x \<noteq> [] \<longrightarrow>
                             x \<in> set (img_related_chunk_ids i))"
      by simp
  qed
  have first: "\<exists>res. progressQuery e tr chatbot question0 userGroup topK = (Inr res, tr2)
            \<and> question res = strip question0
            \<and> normalized_query res = qr_normalized_query refined
            \<and> answer res = insufficient_evidence_answer
            \<and> supporting_chunks res =
                 map (\<lambda>c. \<lparr> qc_chunk_id = (case rc_chunk_id c of None \<Rightarrow> JNull | Some t \<Rightarrow> JStr t),
                             qc_text = rc_text c, qc_score = rc_score c,
                             qc_meta = StoreDict (rc_meta c) \<rparr>)
                   (sort_key (\<lambda>c. - rc_score c) rawChunks)
            \<and> retrieval_confidence res = ascii ''unknown''
            \<and> need_clarification res = False
            \<and> (\<forall>c \<in> set rawChunks. \<forall>raw keys.
                  bm_image_paths (rc_meta c) = Some raw \<and> raw \<noteq> []
                  \<and> json_loads e raw = Some (JArr (map JStr keys)) \<longrightarrow>
                  (\<forall>k \<in> set keys. \<exists>i \<in> set (images res).
                      img_image_key i = k \<and> img_url i = ascii ''/pdf_images/'' @ k
                      \<and> (\<forall>x. rc_chunk_id c = Some x \<and> x \<noteq> [] \<longrightarrow>
                             x \<in> set (img_related_chunk_ids i))))"
    using run sup img by (intro exI[of _ ?res]) simp
  show ?thesis using first old by blast
qed

text \<open>
  The witness: the model's output cannot be decoded, and the store holds one chunk at
  distance 9, whose score is \<open>0.1\<close> and whose metadata lists one image.
\<close>

theorem low_confidence_short_circuit_witness:
  "\<exists>res tr2. progressQuery
       (demo_env (Response 200 (Content (Some [120]))) demo_image_loads [demo_image_row] 9)
       [] (ascii ''bot'') [113] None 5 = (Inr res, tr2)
     \<and> answer res = insufficient_evidence_answer
     \<and> map qc_chunk_id (supporting_chunks res) = [JStr (ascii ''c5'')]
     \<and> map qc_text (supporting_chunks res) = [ascii ''text'']
     \<and> map qc_score (supporting_chunks res) = [1 / 10]
     \<and> (\<exists>i \<in> set (images res). img_image_key i = demo_image_key
            \<and> img_url i = ascii ''/pdf_images/'' @ demo_image_key
            \<and> ascii ''c5'' \<in> set (img_related_chunk_ids i))"
proof -
  let ?e = "demo_env (Response 200 (Content (Some [120]))) demo_image_loads [demo_image_row] 9"
  let ?c = "baseChunk (demo_image_row, 9)"
  let ?r = "\<lparr> qr_normalized_query = [113], qr_keywords = [], qr_filters = defaultFilters,
              qr_meta = [(ascii ''original_query'', JStr [113])] \<rparr>"
  let ?tr2 = "[EvLLM 1 []] @ [EvGetCollection (collectionName (ascii ''bot'')), EvEmbed [113],
            EvQuery (Single (ChatbotEq (ascii ''bot''))) 5,
            EvGetCollection (collectionName (ascii ''bot'')),
            EvGet (AllOf [DocumentEq (ascii ''doc''), OrderGte 3, OrderLte 7])]"
  have s: "strip [113] = [113]" by (simp add: str_eval)
  have h1: "strip [113] \<noteq> []" by (simp add: s)
  have p1: "refinePayload ?e [113] (ascii ''bot'') None = []"
    by (simp add: refinePayload_def demo_env_def)
  have post: "llm_post ?e [] 1 (refinePayload ?e [113] (ascii ''bot'') None)
                = Response 200 (Content (Some [120]))"
    by (simp add: demo_env_sel)
  have parse: "parseJson (json_loads ?e) (content_text (Some [120])) = Inl ValueError"
    by (intro parseJson_no_brace) (simp add: content_text_def)
  have h2: "refineQuery ?e [] (strip [113]) (ascii ''bot'') None = (Inr ?r, [EvLLM 1 []])"
    unfolding s using refineQuery_fallback[OF post parse] by (simp add: p1)
  have h3: "\<not> spec_block_required ?r"
    by (simp add: spec_block_required_def dict_get_def ascii_def)
  have h4: "searchTopKWithNeighbors ?e [EvLLM 1 []] (qr_normalized_query ?r) (ascii ''bot'') None 5 2
              = (Inr [?c], ?tr2)"
    using demo_search_image[of "Response 200 (Content (Some [120]))" demo_image_loads 9 "[EvLLM 1 []]"]
    by simp
  have sc: "rc_score ?c = 1 / 10" by (simp add: baseChunk_def)
  have h5: "\<forall>c \<in> set [?c]. rc_score c < 40 / 100" by (simp add: sc)
  from low_confidence_short_circuit[OF h1 h2 h3 h4 h5] obtain res where
    run: "progressQuery ?e [] (ascii ''bot'') [113] None 5 = (Inr res, ?tr2)"
    and ans: "answer res = insufficient_evidence_answer"
    and sup: "supporting_chunks res =
                 map (\<lambda>c. \<lparr> qc_chunk_id = (case rc_chunk_id c of None \<Rightarrow> JNull | Some t \<Rightarrow> JStr t),
                             qc_text = rc_text c, qc_score = rc_score c,
                             qc_meta = StoreDict (rc_meta c) \<rparr>)
                   (sort_key (\<lambda>c. - rc_score c) [?c])"
    and img: "\<forall>c \<in> set [?c]. \<forall>raw keys.
                  bm_image_paths (rc_meta c) = Some raw \<and> raw \<noteq> []
                  \<and> json_loads ?e raw = Some (JArr (map JStr keys)) \<longrightarrow>
                  (\<forall>k \<in> set keys. \<exists>i \<in> set (images res).
                      img_image_key i = k \<and> img_url i = ascii ''/pdf_images/'' @ k
                      \<and> (\<forall>x. rc_chunk_id c = Some x \<and> x \<noteq> [] \<longrightarrow>
                             x \<in> set (img_related_chunk_ids i)))"
    by blast
  have meta: "bm_image_paths (rc_meta ?c) = Some demo_image_paths"
    by (simp add: baseChunk_def buildMeta_def demo_image_row_def Let_def)
  have ne: "demo_image_paths \<noteq> []" by (simp add: demo_image_paths_def)
  have ld: "json_loads ?e demo_image_paths = Some (JArr (map JStr [demo_image_key]))"
    by (simp add: demo_env_sel demo_image_loads_def)
  have cid: "rc_chunk_id ?c = Some (ascii ''c5'')"
    by (simp add: baseChunk_def chunkIdOf_def str_or_def demo_image_row_def ascii_def)
  have cne: "ascii ''c5'' \<noteq> []" by (simp add: ascii_def)
  have "\<exists>i \<in> set (images res).
                      img_image_key i = demo_image_key \<and> img_url i = ascii ''/pdf_images/'' @ demo_image_key
                      \<and> (\<forall>x. rc_chunk_id ?c = Some x \<and> x \<noteq> [] \<longrightarrow>
                             x \<in> set (img_related_chunk_ids i))"
    using img[rule_format, of ?c demo_image_paths "[demo_image_key]" demo_image_key] meta ne ld
    by simp
  then have im: "\<exists>i \<in> set (images res). img_image_key i = demo_image_key
            \<and> img_url i = ascii ''/pdf_images/'' @ demo_image_key
            \<and> ascii ''c5'' \<in> set (img_related_chunk_ids i)"
    using cid cne by auto
  have txt1: "rc_text ?c = ascii ''text''" by (simp add: baseChunk_def demo_image_row_def)
  have sups: "map qc_chunk_id (supporting_chunks res) = [JStr (ascii ''c5'')]"
    "map qc_text (supporting_chunks res) = [ascii ''text'']"
    "map qc_score (supporting_chunks res) = [1 / 10]"
    unfolding sup using cid txt1 sc by simp_all
  show ?thesis
    by (rule exI[of _ res], rule exI[of _ "?tr2"]) (simp only: run ans im sups simp_thms)
qed

subsection \<open>Failures of the two LLM stages\<close>










subsection \<open>OCR clean-up\<close>

text \<open>
  What \<open>cleanOcrTextBlocks\<close> keeps: the number and order of the blocks and every field
  but the text; and the text of a block when the request to the LLM server fails, when the
  output cannot be decoded, and when \<open>cleaned_text\<close> is missing or is a blank string.
\<close>

lemma cleanBlocks_length: "length (fst (cleanBlocks e tr blocks)) = length blocks"
  by (induction blocks arbitrary: tr) (simp_all add: case_prod_beta)

lemma cleanBlocks_fields:
  "i < length blocks \<Longrightarrow>
   (fst (cleanBlocks e tr blocks) ! i)\<lparr>tb_text := tb_text (blocks ! i)\<rparr> = blocks ! i"
proof (induction blocks arbitrary: tr i)
  case Nil
  then show ?case by simp
next
  case (Cons b bs)
  show ?case
  proof (cases i)
    case 0
    then show ?thesis by (simp add: case_prod_beta)
  next
    case (Suc j)
    then have "j < length bs" using Cons.prems by simp
    then show ?thesis using Cons.IH Suc by (simp add: case_prod_beta)
  qed
qed

lemma safeCleanText_http_failure:
  assumes "\<forall>c. llm_post e tr 0 (json_dumps e (JObj [(ascii ''raw_text'', JStr t)]))
             \<noteq> Response 200 (Content c)"
  shows "fst (safeCleanText e tr t) = t"
  using assms
  by (auto simp: safeCleanText_def callQwen_def Let_def
      split: http_outcome.splits http_body.splits)

lemma safeCleanText_unparseable:
  assumes "llm_post e tr 0 (json_dumps e (JObj [(ascii ''raw_text'', JStr t)]))
             = Response 200 (Content c)"
    and "parseJson (json_loads e) (case c of None \<Rightarrow> [] | Some s \<Rightarrow> s) = Inl err"
  shows "fst (safeCleanText e tr t) = t"
  using assms by (simp add: safeCleanText_def callQwen_def Let_def)

lemma safeCleanText_blank_string:
  assumes "llm_post e tr 0 (json_dumps e (JObj [(ascii ''raw_text'', JStr t)]))
             = Response 200 (Content c)"
    and "parseJson (json_loads e) (case c of None \<Rightarrow> [] | Some s \<Rightarrow> s) = Inr (JObj d)"
    and "map_of d (ascii ''cleaned_text'') = None
         \<or> (\<exists>s. map_of d (ascii ''cleaned_text'') = Some (JStr s) \<and> strip s = [])"
  shows "fst (safeCleanText e tr t) = t"
  using assms
  by (auto simp: safeCleanText_def callQwen_def Let_def attr_get_default_def
      dict_get_default_def py_str_def strip_def)

lemma demo_null_parse:
  "parseJson demo_null_loads demo_null_output = Inr (JObj [(ascii ''cleaned_text'', JNull)])"
proof -
  have s: "strip demo_null_output = demo_null_output"
    by (simp add: demo_null_output_def strip_def isspace_def ascii_def)
  have b: "startswith demo_null_output [123]" "endswith demo_null_output [125]"
    by (simp_all add: demo_null_output_def startswith_def endswith_def ascii_def)
  have n: "demo_null_output \<noteq> []" by (simp add: demo_null_output_def)
  show ?thesis
    unfolding parseJson_def Let_def s using b n by (simp add: demo_null_loads_def)
qed

text \<open>
  C8 fails on the code. When the model answers \<open>{"cleaned_text": null}\<close>,
  \<open>str(data.get("cleaned_text", ""))\<close> is the string \<open>None\<close>, which is not empty, and the
  text of the block, here a blank and \<open>a\<close>, is replaced by \<open>None\<close>: the block's text is
  lost although the result is empty.
\<close>

theorem ocr_null_cleaned_text_replaces_text:
  "cleanOcrTextBlocks (demo_env (Response 200 (Content (Some demo_null_output))) demo_null_loads [] 0)
     [] [demo_block]
   = ([demo_block\<lparr>tb_text := ascii ''None''\<rparr>], [EvLLM 0 []])
   \<and> tb_text demo_block = [32, 97]"
proof -
  let ?e = "demo_env (Response 200 (Content (Some demo_null_output))) demo_null_loads [] 0"
  have t: "tb_text demo_block = [32, 97]" by (simp add: demo_block_def)
  have st: "strip [32, 97] \<noteq> []" by (simp add: strip_def isspace_def)
  have sn: "strip (ascii ''None'') = ascii ''None''" by (simp add: strip_def isspace_def ascii_def)
  have c: "callQwen ?e [] 0 (json_dumps ?e (JObj [(ascii ''raw_text'', JStr [32, 97])]))
            = (Inr demo_null_output, [EvLLM 0 []])"
    by (simp add: callQwen_def demo_env_def)
  have l: "json_loads ?e = demo_null_loads" by (simp add: demo_env_def)
  have "safeCleanText ?e [] [32, 97] = (ascii ''None'', [EvLLM 0 []])"
    unfolding safeCleanText_def using st
    by (simp add: c l demo_null_parse attr_get_default_def dict_get_default_def py_str_def sn
        Let_def) (simp add: ascii_def)
  then show ?thesis using t st by (simp add: cleanOcrTextBlocks_def)
qed

subsection \<open>Neighbour expansion\<close>













subsection \<open>The user group filter\<close>

lemma searchTopK_filters:
  "\<exists>ext. snd (searchTopK e tr q chatbot userGroup topK) = tr @ ext
         \<and> list_all (search_event chatbot userGroup topK) ext"
  by (auto simp: searchTopK_def tryGetCollection_def search_event_def Let_def
      split: option.splits sum.splits)

lemma fetchNeighbors_filters:
  "\<exists>ext. snd (snd (fetchNeighbors e rows targets ns seen tr)) = tr @ ext
         \<and> list_all (search_event chatbot userGroup topK) ext"
proof (induction targets arbitrary: ns seen tr)
  case Nil
  then show ?case by simp
next
  case (Cons t targets)
  obtain d s where t: "t = (d, s)" by (cases t)
  show ?case
  proof (cases "s = []")
    case True
    then show ?thesis using Cons t by simp
  next
    case False
    let ?w = "AllOf [DocumentEq d, OrderGte (Min (set s)), OrderLte (Max (set s))]"
    have "\<exists>ns' seen'. fetchNeighbors e rows (t # targets) ns seen tr
        = fetchNeighbors e rows targets ns' seen' (tr @ [EvGet ?w])"
      using False t by (auto simp: Let_def split: sum.splits prod.splits)
    then obtain ns' seen' where eq: "fetchNeighbors e rows (t # targets) ns seen tr
        = fetchNeighbors e rows targets ns' seen' (tr @ [EvGet ?w])" by blast
    obtain ext where "snd (snd (fetchNeighbors e rows targets ns' seen' (tr @ [EvGet ?w])))
        = (tr @ [EvGet ?w]) @ ext" "list_all (search_event chatbot userGroup topK) ext"
      using Cons.IH by blast
    then have "snd (snd (fetchNeighbors e rows (t # targets) ns seen tr)) = tr @ (EvGet ?w # ext)
        \<and> list_all (search_event chatbot userGroup topK) (EvGet ?w # ext)"
      using eq by (simp add: search_event_def)
    then show ?thesis by blast
  qed
qed

lemma searchTopKWithNeighbors_filters:
  "\<exists>ext. snd (searchTopKWithNeighbors e tr q chatbot userGroup topK radius) = tr @ ext
         \<and> list_all (search_event chatbot userGroup topK) ext"
proof -
  obtain r1 tr1 where s: "searchTopK e tr q chatbot userGroup topK = (r1, tr1)"
    by (cases "searchTopK e tr q chatbot userGroup topK")
  obtain ext1 where e1: "tr1 = tr @ ext1" "list_all (search_event chatbot userGroup topK) ext1"
    using searchTopK_filters[of e tr q chatbot userGroup topK] s by auto
  show ?thesis
  proof (cases r1)
    case (Inl err)
    then show ?thesis using s e1 by (auto simp: searchTopKWithNeighbors_def)
  next
    case (Inr base)
    show ?thesis
    proof (cases "base = [] \<or> radius \<le> 0")
      case True
      then show ?thesis using s e1 Inr by (auto simp: searchTopKWithNeighbors_def)
    next
      case False
      show ?thesis
      proof (cases "chroma_installed e")
        case no: False
        then show ?thesis using s e1 Inr False
          by (auto simp: searchTopKWithNeighbors_def tryGetCollection_def)
      next
        case yes: True
        let ?tr2 = "tr1 @ [EvGetCollection (collectionName chatbot)]"
        have g: "tryGetCollection e tr1 chatbot = (Inr (collections e (collectionName chatbot)), ?tr2)"
          using yes by (simp add: tryGetCollection_def)
        show ?thesis
        proof (cases "collections e (collectionName chatbot)")
          case None
          then show ?thesis using s e1 g Inr False
            by (auto simp: searchTopKWithNeighbors_def search_event_def)
        next
          case (Some rows)
          obtain targets seen where ct: "collectTargets radius base [] [] = (targets, seen)"
            by (cases "collectTargets radius base [] []")
          obtain ns seen' tr3 where f: "fetchNeighbors e rows targets [] seen ?tr2 = (ns, seen', tr3)"
            by (cases "fetchNeighbors e rows targets [] seen ?tr2") auto
          obtain ext3 where e3: "tr3 = ?tr2 @ ext3" "list_all (search_event chatbot userGroup topK) ext3"
            using fetchNeighbors_filters[of e rows targets "[]" seen ?tr2 chatbot userGroup topK] f
            by auto
          have "snd (searchTopKWithNeighbors e tr q chatbot userGroup topK radius) = tr3"
            using s g Inr False Some ct f by (simp add: searchTopKWithNeighbors_def)
          then show ?thesis using e1 e3 by (auto simp: search_event_def)
        qed
      qed
    qed
  qed
qed

lemma demo_search_groups:
  "searchTopKWithNeighbors
     (demo_env outcome loads [demo_row (ascii ''c5'') (ascii ''doc'') 5 (ascii ''staff''),
                              demo_row (ascii ''c6'') (ascii ''doc'') 6 (ascii ''guest'')] dst)
     [] [113] (ascii ''bot'') (Some (ascii ''staff'')) 5 2
   = (Inr [baseChunk (demo_row (ascii ''c5'') (ascii ''doc'') 5 (ascii ''staff''), dst),
           neighborChunk (demo_row (ascii ''c6'') (ascii ''doc'') 6 (ascii ''guest''))],
      [EvGetCollection (collectionName (ascii ''bot'')), EvEmbed [113],
       EvQuery (AllOf [ChatbotEq (ascii ''bot''), UserGroupEq (ascii ''staff'')]) 5,
       EvGetCollection (collectionName (ascii ''bot'')),
       EvGet (AllOf [DocumentEq (ascii ''doc''), OrderGte 3, OrderLte 7])])"
  by (simp add: search_eval ascii_def upto_from_minus_one)

text \<open>
  C9. Every similarity query of \<open>searchTopKWithNeighbors\<close> carries the filter of
  \<open>_buildWhere\<close>, which for a user group that is not empty is the chatbot id and the user
  group; every neighbour lookup carries a document id and an order index range only. So a
  neighbour can belong to another user group: in a store with chunk 5 of \<open>doc\<close> indexed for
  \<open>staff\<close> and chunk 6 of \<open>doc\<close> indexed for \<open>guest\<close>, the query for the group \<open>staff\<close>
  returns chunk 5 as the base hit and chunk 6, whose \<open>user_group\<close> is \<open>guest\<close> and which does
  not satisfy the filter of the similarity query, as its neighbour.
\<close>

theorem neighbor_fetch_ignores_user_group:
  "(\<exists>ext. snd (searchTopKWithNeighbors e tr q chatbot userGroup topK radius) = tr @ ext
           \<and> list_all (search_event chatbot userGroup topK) ext)
   \<and> (g \<noteq> [] \<longrightarrow> buildWhere chatbot (Some g) = AllOf [ChatbotEq chatbot, UserGroupEq g])
   \<and> searchTopKWithNeighbors
        (demo_env RequestException (\<lambda>s. None)
           [demo_row (ascii ''c5'') (ascii ''doc'') 5 (ascii ''staff''),
            demo_row (ascii ''c6'') (ascii ''doc'') 6 (ascii ''guest'')] 0)
        [] [113] (ascii ''bot'') (Some (ascii ''staff'')) 5 2
      = (Inr [baseChunk (demo_row (ascii ''c5'') (ascii ''doc'') 5 (ascii ''staff''), 0),
              neighborChunk (demo_row (ascii ''c6'') (ascii ''doc'') 6 (ascii ''guest''))],
         [EvGetCollection (collectionName (ascii ''bot'')), EvEmbed [113],
          EvQuery (AllOf [ChatbotEq (ascii ''bot''), UserGroupEq (ascii ''staff'')]) 5,
          EvGetCollection (collectionName (ascii ''bot'')),
          EvGet (AllOf [DocumentEq (ascii ''doc''), OrderGte 3, OrderLte 7])])
   \<and> sm_user_group (row_meta (demo_row (ascii ''c6'') (ascii ''doc'') 6 (ascii ''guest'')))
        = Some (ascii ''guest'')
   \<and> ascii ''guest'' \<noteq> ascii ''staff''
   \<and> \<not> matches (buildWhere (ascii ''bot'') (Some (ascii ''staff'')))
          (row_meta (demo_row (ascii ''c6'') (ascii ''doc'') 6 (ascii ''guest'')))
   \<and> rc_chunk_id (neighborChunk (demo_row (ascii ''c6'') (ascii ''doc'') 6 (ascii ''guest'')))
        = Some (ascii ''c6'')"
proof (intro conjI)
  show "\<exists>ext. snd (searchTopKWithNeighbors e tr q chatbot userGroup topK radius) = tr @ ext
           \<and> list_all (search_event chatbot userGroup topK) ext"
    by (rule searchTopKWithNeighbors_filters)
  show "g \<noteq> [] \<longrightarrow> buildWhere chatbot (Some g) = AllOf [ChatbotEq chatbot, UserGroupEq g]"
    by (simp add: buildWhere_def)
  show "searchTopKWithNeighbors
        (demo_env RequestException (\<lambda>s. None)
           [demo_row (ascii ''c5'') (ascii ''doc'') 5 (ascii ''staff''),
            demo_row (ascii ''c6'') (ascii ''doc'') 6 (ascii ''guest'')] 0)
        [] [113] (ascii ''bot'') (Some (ascii ''staff'')) 5 2
      = (Inr [baseChunk (demo_row (ascii ''c5'') (ascii ''doc'') 5 (ascii ''staff''), 0),
              neighborChunk (demo_row (ascii ''c6'') (ascii ''doc'') 6 (ascii ''guest''))],
         [EvGetCollection (collectionName (ascii ''bot'')), EvEmbed [113],
          EvQuery (AllOf [ChatbotEq (ascii ''bot''), UserGroupEq (ascii ''staff'')]) 5,
          EvGetCollection (collectionName (ascii ''bot'')),
          EvGet (AllOf [DocumentEq (ascii ''doc''), OrderGte 3, OrderLte 7])])"
    by (rule demo_search_groups)
  show "sm_user_group (row_meta (demo_row (ascii ''c6'') (ascii ''doc'') 6 (ascii ''guest'')))
        = Some (ascii ''guest'')"
    by (simp add: demo_row_def)
  show "ascii ''guest'' \<noteq> ascii ''staff''" by (simp add: ascii_def)
  show "\<not> matches (buildWhere (ascii ''bot'') (Some (ascii ''staff'')))
          (row_meta (demo_row (ascii ''c6'') (ascii ''doc'') 6 (ascii ''guest'')))"
    by (simp add: buildWhere_def demo_row_def ascii_def)
  show "rc_chunk_id (neighborChunk (demo_row (ascii ''c6'') (ascii ''doc'') 6 (ascii ''guest'')))
        = Some (ascii ''c6'')"
    by (simp add: neighborChunk_def chunkIdOf_def str_or_def demo_row_def ascii_def)
qed

text \<open>The witness: the calls made in that store.\<close>

theorem neighbor_fetch_ignores_user_group_witness:
  "\<exists>ext. snd (searchTopKWithNeighbors
                 (demo_env RequestException (\<lambda>s. None)
                    [demo_row (ascii ''c5'') (ascii ''doc'') 5 (ascii ''staff''),
                     demo_row (ascii ''c6'') (ascii ''doc'') 6 (ascii ''guest'')] 0)
                 [] [113] (ascii ''bot'') (Some (ascii ''staff'')) 5 2) = ext
         \<and> list_all (search_event (ascii ''bot'') (Some (ascii ''staff'')) 5) ext
         \<and> buildWhere (ascii ''bot'') (Some (ascii ''staff''))
             = AllOf [ChatbotEq (ascii ''bot''), UserGroupEq (ascii ''staff'')]"
proof -
  have n: "ascii ''staff'' \<noteq> []" by (simp add: ascii_def)
  note t = neighbor_fetch_ignores_user_group[of
      "demo_env RequestException (\<lambda>s. None)
         [demo_row (ascii ''c5'') (ascii ''doc'') 5 (ascii ''staff''),
          demo_row (ascii ''c6'') (ascii ''doc'') 6 (ascii ''guest'')] 0"
      "[]" "[113]" "ascii ''bot''" "Some (ascii ''staff'')" 5 2 "ascii ''staff''"]
  have 1: "list_all (search_event (ascii ''bot'') (Some (ascii ''staff'')) 5)
             (snd (searchTopKWithNeighbors
                 (demo_env RequestException (\<lambda>s. None)
                    [demo_row (ascii ''c5'') (ascii ''doc'') 5 (ascii ''staff''),
                     demo_row (ascii ''c6'') (ascii ''doc'') 6 (ascii ''guest'')] 0)
                 [] [113] (ascii ''bot'') (Some (ascii ''staff'')) 5 2))"
    using t[THEN conjunct1] by auto
  have 2: "buildWhere (ascii ''bot'') (Some (ascii ''staff''))
             = AllOf [ChatbotEq (ascii ''bot''), UserGroupEq (ascii ''staff'')]"
    using t[THEN conjunct2, THEN conjunct1] n by blast
  show ?thesis using 1 2 by blast
qed

end
